theory Spec2Isabelle
  imports Main
begin

section \<open>Python strings\<close>

text \<open>
  A Python \<^verbatim>\<open>str\<close> is a sequence of Unicode code points, and \<^verbatim>\<open>len\<close> counts code
  points. It is modelled as a list of natural numbers; \<open>py\<close> turns a literal of the
  source into that form.
\<close>

type_synonym pystr = "nat list"

definition py :: "string \<Rightarrow> pystr" where
  "py s = map of_char s"

text \<open>
  \<^verbatim>\<open>str.isspace\<close> on one code point, which is also the set \<^verbatim>\<open>str.strip()\<close> removes:
  U+0009..U+000D, U+001C..U+0020, U+0085, U+00A0, U+1680, U+2000..U+200A, U+2028,
  U+2029, U+202F, U+205F, U+3000.
\<close>

definition isspace :: "nat \<Rightarrow> bool" where
  "isspace c \<longleftrightarrow>
     (9 \<le> c \<and> c \<le> 13) \<or> (28 \<le> c \<and> c \<le> 32) \<or> c = 133 \<or> c = 160 \<or> c = 5760 \<or>
     (8192 \<le> c \<and> c \<le> 8202) \<or> c = 8232 \<or> c = 8233 \<or> c = 8239 \<or> c = 8287 \<or>
     c = 12288"

text \<open>\<^verbatim>\<open>s.strip()\<close>: leading and trailing whitespace removed.\<close>

definition strip :: "pystr \<Rightarrow> pystr" where
  "strip s = rev (dropWhile isspace (rev (dropWhile isspace s)))"

text \<open>\<^verbatim>\<open>s.startswith(p)\<close>, and the tuple form \<^verbatim>\<open>s.startswith((p, q))\<close>.\<close>

definition startswith :: "pystr \<Rightarrow> pystr \<Rightarrow> bool" where
  "startswith s p \<longleftrightarrow> take (length p) s = p"

definition startswith_any :: "pystr \<Rightarrow> pystr list \<Rightarrow> bool" where
  "startswith_any s ps \<longleftrightarrow> list_ex (startswith s) ps"

text \<open>\<^verbatim>\<open>sep.join(xs)\<close>.\<close>

fun join :: "pystr \<Rightarrow> pystr list \<Rightarrow> pystr" where
  "join sep [] = []"
| "join sep [x] = x"
| "join sep (x # y # ys) = x @ sep @ join sep (y # ys)"

text \<open>
  The line boundaries of \<^verbatim>\<open>str.splitlines()\<close>: LF, VT, FF, CR, FS, GS, RS, NEL, LS, PS.
\<close>

definition is_linebreak :: "nat \<Rightarrow> bool" where
  "is_linebreak c \<longleftrightarrow>
     (10 \<le> c \<and> c \<le> 13) \<or> (28 \<le> c \<and> c \<le> 30) \<or> c = 133 \<or> c = 8232 \<or> c = 8233"

text \<open>
  \<^verbatim>\<open>s.splitlines()\<close>: the text is cut at every line boundary, CR LF counting as one,
  the boundaries are dropped, and a boundary at the very end opens no further line.
  The first argument is the line being read, reversed.
\<close>

fun splitlines_from :: "pystr \<Rightarrow> pystr \<Rightarrow> pystr list" where
  "splitlines_from cur [] = (if cur = [] then [] else [rev cur])"
| "splitlines_from cur (c # cs) =
     (if c = 13 then
        (case cs of
           [] \<Rightarrow> [rev cur]
         | d # ds \<Rightarrow> if d = 10 then rev cur # splitlines_from [] ds
                    else rev cur # splitlines_from [] (d # ds))
      else if is_linebreak c then rev cur # splitlines_from [] cs
      else splitlines_from (c # cur) cs)"

definition splitlines :: "pystr \<Rightarrow> pystr list" where
  "splitlines s = splitlines_from [] s"

text \<open>
  \<^verbatim>\<open>s.split("  ")\<close>: the text is cut at every occurrence of two spaces, read from the
  left without overlap; the result always has at least one piece.
\<close>

fun split_two_spaces_from :: "pystr \<Rightarrow> pystr \<Rightarrow> pystr list" where
  "split_two_spaces_from cur [] = [rev cur]"
| "split_two_spaces_from cur [c] = [rev (c # cur)]"
| "split_two_spaces_from cur (c # d # cs) =
     (if c = 32 \<and> d = 32 then rev cur # split_two_spaces_from [] cs
      else split_two_spaces_from (c # cur) (d # cs))"

definition split_two_spaces :: "pystr \<Rightarrow> pystr list" where
  "split_two_spaces s = split_two_spaces_from [] s"

section \<open>Exceptions and documents\<close>

text \<open>
  Every handler of the source is \<^verbatim>\<open>except Exception as e\<close> and reads only \<^verbatim>\<open>str(e)\<close>,
  so an exception is its class (\<^verbatim>\<open>ValueError\<close> is the one class the source raises
  itself) and its message.
\<close>

datatype exn = Exception pystr | ValueError pystr

fun str :: "exn \<Rightarrow> pystr" where
  "str (Exception m) = m"
| "str (ValueError m) = m"

text \<open>
  LangChain's \<^verbatim>\<open>Document\<close>: the text and the metadata dictionary, whose keys are the
  literals \<^verbatim>\<open>"source"\<close>, \<^verbatim>\<open>"error"\<close> and whatever the loader adds.
\<close>

record document =
  page_content :: pystr
  metadata :: "(string \<times> pystr) list"

text \<open>\<^verbatim>\<open>doc.metadata.get(key)\<close>: \<open>None\<close> when the key is absent.\<close>

definition metadata_get :: "document \<Rightarrow> string \<Rightarrow> pystr option" where
  "metadata_get doc key = map_of (metadata doc) key"

section \<open>The network, as the extractors see it\<close>

text \<open>
  The extractors reach the network through three library calls. Each is an oracle of
  the world: it answers with a value or with an exception, and its answer may change
  from one call to the next, so it is indexed by the number of requests made so far.
  The world keeps the list of requests made, oldest first.
  \<^item> \<open>http_get_text\<close>: \<^verbatim>\<open>requests.get\<close>, \<^verbatim>\<open>raise_for_status\<close>, the \<^verbatim>\<open>BeautifulSoup\<close>
    parse, the removal of script, style, header, footer and nav elements, and
    \<^verbatim>\<open>soup.get_text()\<close>;
  \<^item> \<open>web_base_load\<close>: \<^verbatim>\<open>WebBaseLoader(url, ...).load()\<close>;
  \<^item> \<open>async_html_load\<close>: \<^verbatim>\<open>AsyncHtmlLoader(urls).load()\<close>;
  \<^item> \<open>html2text_transform\<close>: \<^verbatim>\<open>Html2TextTransformer().transform_documents(docs)\<close>,
    a local computation on the documents loaded.
  Logging changes no result and is left out.
\<close>

datatype request = HttpGet pystr | WebBaseLoad pystr | AsyncHtmlLoad "pystr list"

record world =
  http_get_text :: "nat \<Rightarrow> pystr \<Rightarrow> exn + pystr"
  web_base_load :: "nat \<Rightarrow> pystr \<Rightarrow> exn + document list"
  async_html_load :: "nat \<Rightarrow> pystr list \<Rightarrow> exn + document list"
  html2text_transform :: "document list \<Rightarrow> exn + document list"
  requests :: "request list"

definition now :: "world \<Rightarrow> nat" where
  "now w = length (requests w)"

definition sent :: "request \<Rightarrow> world \<Rightarrow> world" where
  "sent r w = w\<lparr>requests := requests w @ [r]\<rparr>"

section \<open>The single-page extractor (beautifulsoup\_extractor.py)\<close>

text \<open>
  Lines 35 to 37: every line of the text is stripped, cut at double spaces, the pieces
  are stripped, the empty ones dropped and the rest joined by newlines.
\<close>

definition clean_text :: "pystr \<Rightarrow> pystr" where
  "clean_text text =
     (let lines = map strip (splitlines text);
          chunks = map strip (concat (map split_two_spaces lines))
      in join (py ''\<newline>'') (filter (\<lambda>chunk. chunk \<noteq> []) chunks))"

definition error_extracting :: "pystr \<Rightarrow> pystr \<Rightarrow> pystr" where
  "error_extracting url reason = py ''Error extracting content from '' @ url @ py '': '' @ reason"

text \<open>
  \<^verbatim>\<open>extract_content_from_url(url)\<close>. Whatever is raised inside the \<^verbatim>\<open>try\<close> is caught
  and turned into a string that begins with \<^verbatim>\<open>Error\<close>; the function itself never raises.
\<close>

definition extract_content_from_url :: "pystr \<Rightarrow> world \<Rightarrow> pystr \<times> world" where
  "extract_content_from_url url w =
     (let w' = sent (HttpGet url) w in
      case http_get_text w (now w) url of
        Inl e \<Rightarrow> (error_extracting url (str e), w')
      | Inr raw \<Rightarrow>
          (let text = clean_text raw in
           if text = [] \<or> length (strip text) < 10
           then (error_extracting url (py ''Content was empty or too short''), w')
           else (text, w')))"

section \<open>The structure-preserving extractors (langchain\_extractor.py)\<close>

definition error_document :: "pystr \<Rightarrow> pystr \<Rightarrow> pystr \<Rightarrow> document" where
  "error_document content source reason =
     \<lparr>page_content = content, metadata = [(''source'', source), (''error'', reason)]\<rparr>"

text \<open>
  \<^verbatim>\<open>extract_content_with_langchain(url)\<close>: one URL through \<^verbatim>\<open>WebBaseLoader\<close>. An empty
  result, a first document of fewer than 10 characters once stripped, and any
  exception each give one document whose text begins with \<^verbatim>\<open>Error\<close>.
\<close>

definition extract_content_with_langchain :: "pystr \<Rightarrow> world \<Rightarrow> document list \<times> world" where
  "extract_content_with_langchain url w =
     (let w' = sent (WebBaseLoad url) w in
      case web_base_load w (now w) url of
        Inl e \<Rightarrow> ([error_document (error_extracting url (str e)) url (str e)], w')
      | Inr docs \<Rightarrow>
          (case docs of
             [] \<Rightarrow>
               ([error_document (error_extracting url (py ''Content was empty or too short''))
                   url (py ''Empty content'')], w')
           | doc # _ \<Rightarrow>
               if length (strip (page_content doc)) < 10
               then ([error_document (error_extracting url (py ''Content was empty or too short''))
                        url (py ''Empty content'')], w')
               else (docs, w')))"

text \<open>Lines 76 to 81: the validation loop over the transformed documents.\<close>

fun validate_docs :: "document list \<Rightarrow> document list \<Rightarrow> document list" where
  "validate_docs valid_docs [] = valid_docs"
| "validate_docs valid_docs (doc # docs) =
     (if length (strip (page_content doc)) \<ge> 10
      then validate_docs (valid_docs @ [doc]) docs
      else validate_docs valid_docs docs)"

definition batch_error_document :: "pystr list \<Rightarrow> pystr \<Rightarrow> document" where
  "batch_error_document urls reason =
     error_document (py ''Error extracting content from URLs: '' @ reason)
       (join (py '', '') urls) reason"

text \<open>
  \<^verbatim>\<open>extract_content_with_html2text(urls)\<close>: all URLs through \<^verbatim>\<open>AsyncHtmlLoader\<close>, then
  \<^verbatim>\<open>Html2TextTransformer\<close>, then the validation loop.
\<close>

definition extract_content_with_html2text :: "pystr list \<Rightarrow> world \<Rightarrow> document list \<times> world" where
  "extract_content_with_html2text urls w =
     (let w' = sent (AsyncHtmlLoad urls) w in
      case async_html_load w (now w) urls of
        Inl e \<Rightarrow> ([batch_error_document urls (str e)], w')
      | Inr docs \<Rightarrow>
          if docs = [] then ([batch_error_document urls (py ''No content extracted'')], w')
          else
            (case html2text_transform w docs of
               Inl e \<Rightarrow> ([batch_error_document urls (str e)], w')
             | Inr docs_transformed \<Rightarrow>
                 (let valid_docs = validate_docs [] docs_transformed in
                  if valid_docs = []
                  then ([error_document
                           (py ''Error extracting content from URLs: All documents had insufficient content'')
                           (join (py '', '') urls) (py ''Insufficient content'')], w')
                  else (valid_docs, w'))))"

section \<open>The orchestrator (document\_processing.py)\<close>

text \<open>
  A \<^verbatim>\<open>dict\<close> keeps its keys in insertion order; assigning to a key that is present
  replaces the value where it stands.
\<close>

type_synonym contents = "(pystr \<times> pystr) list"

fun dict_set :: "pystr \<Rightarrow> pystr \<Rightarrow> contents \<Rightarrow> contents" where
  "dict_set k v [] = [(k, v)]"
| "dict_set k v ((k', v') # d) =
     (if k' = k then (k', v) # d else (k', v') # dict_set k v d)"

text \<open>Lines 24 to 31: the loop that cleans the URLs.\<close>

fun clean_urls_loop :: "pystr list \<Rightarrow> pystr list \<Rightarrow> pystr list" where
  "clean_urls_loop clean_urls [] = clean_urls"
| "clean_urls_loop clean_urls (url # urls) =
     (let url = strip url in
      if url \<noteq> [] then
        (let url = (if \<not> startswith_any url [py ''http://'', py ''https://'']
                    then py ''https://'' @ url else url)
         in clean_urls_loop (clean_urls @ [url]) urls)
      else clean_urls_loop clean_urls urls)"

text \<open>
  \<^verbatim>\<open>process_urls\<close> reaches the extractors through three names of its module. They are
  parameters here, so that the handlers of lines 62 and 76 have something to catch:
  each extractor takes the world and returns a value or an exception, and the world
  after the call. The orchestrator notes every call it makes, in order.
\<close>

record 'w extractors =
  x_html2text :: "pystr list \<Rightarrow> 'w \<Rightarrow> (exn + document list) \<times> 'w"
  x_langchain :: "pystr \<Rightarrow> 'w \<Rightarrow> (exn + document list) \<times> 'w"
  x_from_url :: "pystr \<Rightarrow> 'w \<Rightarrow> (exn + pystr) \<times> 'w"

datatype call = CallHtml2text "pystr list" | CallLangchain pystr | CallFromUrl pystr

text \<open>Lines 43 to 49: the documents of the batch extractor are entered by source.\<close>

fun batch_loop :: "document list \<Rightarrow> contents \<times> bool \<Rightarrow> contents \<times> bool" where
  "batch_loop [] (contents, has_valid_content) = (contents, has_valid_content)"
| "batch_loop (doc # docs) (contents, has_valid_content) =
     (case metadata_get doc ''source'' of
        None \<Rightarrow> batch_loop docs (contents, has_valid_content)
      | Some url \<Rightarrow>
          if url \<noteq> [] \<and> \<not> startswith (page_content doc) (py ''Error'')
          then batch_loop docs (dict_set url (page_content doc) contents, True)
          else batch_loop docs (contents, has_valid_content))"

text \<open>
  Lines 54 to 63: one call of the single-URL extractor per URL; the inner handler
  swallows whatever it raises.
\<close>

fun langchain_loop ::
  "'w extractors \<Rightarrow> pystr list \<Rightarrow> contents \<times> bool \<times> call list \<times> 'w \<Rightarrow>
     contents \<times> bool \<times> call list \<times> 'w" where
  "langchain_loop ex [] st = st"
| "langchain_loop ex (url # urls) (contents, has_valid_content, calls, w) =
     (case x_langchain ex url w of
        (Inl e, w') \<Rightarrow>
          langchain_loop ex urls (contents, has_valid_content, calls @ [CallLangchain url], w')
      | (Inr docs, w') \<Rightarrow>
          (case docs of
             [] \<Rightarrow>
               langchain_loop ex urls
                 (contents, has_valid_content, calls @ [CallLangchain url], w')
           | doc # _ \<Rightarrow>
               if \<not> startswith (page_content doc) (py ''Error'')
               then langchain_loop ex urls
                      (dict_set url (page_content doc) contents, True,
                       calls @ [CallLangchain url], w')
               else langchain_loop ex urls
                      (contents, has_valid_content, calls @ [CallLangchain url], w')))"

text \<open>
  Lines 68 to 74: the simple extractor per URL, a result kept only when it does not
  begin with \<^verbatim>\<open>Error\<close>. An exception leaves the loop with the state reached.
\<close>

fun from_url_checked_loop ::
  "'w extractors \<Rightarrow> pystr list \<Rightarrow> contents \<times> bool \<times> call list \<times> 'w \<Rightarrow>
     exn option \<times> contents \<times> bool \<times> call list \<times> 'w" where
  "from_url_checked_loop ex [] st = (None, st)"
| "from_url_checked_loop ex (url # urls) (contents, has_valid_content, calls, w) =
     (case x_from_url ex url w of
        (Inl e, w') \<Rightarrow> (Some e, contents, has_valid_content, calls @ [CallFromUrl url], w')
      | (Inr content, w') \<Rightarrow>
          if \<not> startswith content (py ''Error'')
          then from_url_checked_loop ex urls
                 (dict_set url content contents, True, calls @ [CallFromUrl url], w')
          else from_url_checked_loop ex urls
                 (contents, has_valid_content, calls @ [CallFromUrl url], w'))"

text \<open>
  Lines 80 to 81 and 84 to 85: the simple extractor per URL, every result kept.
\<close>

fun from_url_loop ::
  "'w extractors \<Rightarrow> pystr list \<Rightarrow> contents \<times> call list \<times> 'w \<Rightarrow>
     exn option \<times> contents \<times> call list \<times> 'w" where
  "from_url_loop ex [] st = (None, st)"
| "from_url_loop ex (url # urls) (contents, calls, w) =
     (case x_from_url ex url w of
        (Inl e, w') \<Rightarrow> (Some e, contents, calls @ [CallFromUrl url], w')
      | (Inr content, w') \<Rightarrow>
          from_url_loop ex urls (dict_set url content contents, calls @ [CallFromUrl url], w'))"

text \<open>Lines 37 to 74: the body of the \<^verbatim>\<open>try\<close>.\<close>

definition try_langchain ::
  "'w extractors \<Rightarrow> pystr list \<Rightarrow> 'w \<Rightarrow> exn option \<times> contents \<times> bool \<times> call list \<times> 'w" where
  "try_langchain ex clean_urls w =
     (case x_html2text ex clean_urls w of
        (Inl e, w1) \<Rightarrow> (Some e, [], False, [CallHtml2text clean_urls], w1)
      | (Inr docs, w1) \<Rightarrow>
          (case batch_loop docs ([], False) of
             (contents, has_valid_content) \<Rightarrow>
               (case (if \<not> has_valid_content
                      then langchain_loop ex clean_urls
                             (contents, has_valid_content, [CallHtml2text clean_urls], w1)
                      else (contents, has_valid_content, [CallHtml2text clean_urls], w1)) of
                  (contents, has_valid_content, calls, w2) \<Rightarrow>
                    if \<not> has_valid_content
                    then from_url_checked_loop ex clean_urls
                           (contents, has_valid_content, calls, w2)
                    else (None, contents, has_valid_content, calls, w2))))"

text \<open>Lines 88 to 93: the final check, which builds \<^verbatim>\<open>valid_contents\<close>.\<close>

fun final_check :: "contents \<Rightarrow> contents \<Rightarrow> contents" where
  "final_check valid_contents [] = valid_contents"
| "final_check valid_contents ((url, content) # items) =
     (if \<not> startswith content (py ''Error'')
      then final_check (dict_set url content valid_contents) items
      else final_check valid_contents items)"

text \<open>
  \<^verbatim>\<open>process_urls(urls, use_langchain)\<close>. The result is the dictionary returned or the
  exception that left the function, with the calls made and the world reached. Line
  100 returns \<^verbatim>\<open>contents\<close>; \<^verbatim>\<open>valid_contents\<close> is only counted for the log.
\<close>

definition finish ::
  "exn option \<times> contents \<times> call list \<times> 'w \<Rightarrow> (exn + contents) \<times> call list \<times> 'w" where
  "finish r =
     (case r of
        (Some e, contents, calls, w) \<Rightarrow> (Inl e, calls, w)
      | (None, contents, calls, w) \<Rightarrow>
          (let valid_contents = final_check [] contents in (Inr contents, calls, w)))"

definition process_urls_with ::
  "'w extractors \<Rightarrow> pystr list \<Rightarrow> bool \<Rightarrow> 'w \<Rightarrow> (exn + contents) \<times> call list \<times> 'w" where
  "process_urls_with ex urls use_langchain w =
     (let clean_urls = clean_urls_loop [] urls in
      if use_langchain \<and> clean_urls \<noteq> [] then
        (case try_langchain ex clean_urls w of
           (None, contents, has_valid_content, calls, w') \<Rightarrow> finish (None, contents, calls, w')
         | (Some e, contents, has_valid_content, calls, w') \<Rightarrow>
             finish (from_url_loop ex clean_urls (contents, calls, w')))
      else finish (from_url_loop ex clean_urls ([], [], w)))"

text \<open>The extractors of the repository never raise: each catches every exception.\<close>

definition returning :: "('a \<Rightarrow> 'w \<Rightarrow> 'b \<times> 'w) \<Rightarrow> 'a \<Rightarrow> 'w \<Rightarrow> (exn + 'b) \<times> 'w" where
  "returning f a w = (case f a w of (r, w') \<Rightarrow> (Inr r, w'))"

definition extractors :: "world extractors" where
  "extractors =
     \<lparr>x_html2text = returning extract_content_with_html2text,
      x_langchain = returning extract_content_with_langchain,
      x_from_url = returning extract_content_from_url\<rparr>"

definition process_urls :: "pystr list \<Rightarrow> bool \<Rightarrow> world \<Rightarrow> (exn + contents) \<times> call list \<times> world" where
  "process_urls = process_urls_with extractors"

text \<open>
  \<^verbatim>\<open>create_documents_from_contents(contents)\<close>, lines 112 to 119: the loop over the
  items of the dictionary.
\<close>

fun create_documents_loop :: "document list \<Rightarrow> contents \<Rightarrow> document list" where
  "create_documents_loop documents [] = documents"
| "create_documents_loop documents ((url, content) # items) =
     (if \<not> startswith content (py ''Error'')
      then create_documents_loop
             (documents @ [\<lparr>page_content = content, metadata = [(''source'', url)]\<rparr>]) items
      else create_documents_loop documents items)"

definition create_documents_from_contents :: "contents \<Rightarrow> document list" where
  "create_documents_from_contents contents = create_documents_loop [] contents"

text \<open>
  \<^verbatim>\<open>split_documents(documents)\<close>, lines 134 to 146. The splitter is LangChain's
  \<^verbatim>\<open>RecursiveCharacterTextSplitter(chunk_size=1000, chunk_overlap=200)\<close>, a parameter
  here; it is built and called only after the test for an empty list.
\<close>

definition split_documents ::
  "(document list \<Rightarrow> exn + document list) \<Rightarrow> document list \<Rightarrow> exn + document list" where
  "split_documents text_splitter documents =
     (if documents = [] then Inr [] else text_splitter documents)"

section \<open>The vector store (embeddings.py)\<close>

text \<open>
  \<^verbatim>\<open>os.getenv\<close> gives \<^verbatim>\<open>None\<close> or a string; \<^verbatim>\<open>not v\<close>, \<^verbatim>\<open>a and b\<close> and \<^verbatim>\<open>a or b\<close> go by
  truthiness, and the last two return one of their operands.
\<close>

definition truthy :: "pystr option \<Rightarrow> bool" where
  "truthy v = (case v of None \<Rightarrow> False | Some s \<Rightarrow> s \<noteq> [])"



text \<open>
  What \<^verbatim>\<open>create_vector_store\<close> does outside the process: it builds the embedding
  client, and \<^verbatim>\<open>FAISS.from_documents\<close> sends the documents to the embedding service.
  Both may raise. The steps taken are noted in order.
\<close>

datatype embeddings = HuggingFaceInferenceAPIEmbeddings pystr pystr

datatype vector_store = FAISS "document list" embeddings

datatype embedding_step = BuildEmbeddingClient pystr | EmbedDocuments "document list"

record embedding_service =
  build_client :: "pystr \<Rightarrow> pystr \<Rightarrow> exn option"
  embed_documents :: "document list \<Rightarrow> embeddings \<Rightarrow> exn option"

definition create_vector_store ::
  "embedding_service \<Rightarrow> pystr option \<Rightarrow> document list \<Rightarrow> embedding_step list \<Rightarrow>
     (exn + vector_store) \<times> embedding_step list" where
  "create_vector_store sv HF_token documents steps =
     (case HF_token of
        None \<Rightarrow>
          (Inl (ValueError (py ''No embeddings service available - please set HUGGINGFACEHUB_API_TOKEN in your .env file'')),
           steps)
      | Some token \<Rightarrow>
          if token = [] then
            (Inl (ValueError (py ''No embeddings service available - please set HUGGINGFACEHUB_API_TOKEN in your .env file'')),
             steps)
          else
            (case build_client sv token (py ''BAAI/bge-base-en-v1.5'') of
               Some e \<Rightarrow>
                 (Inl (ValueError (py ''Error creating embeddings: '' @ str e)),
                  steps @ [BuildEmbeddingClient token])
             | None \<Rightarrow>
                 (let embeddings = HuggingFaceInferenceAPIEmbeddings token (py ''BAAI/bge-base-en-v1.5'');
                      steps' = steps @ [BuildEmbeddingClient token, EmbedDocuments documents]
                  in case embed_documents sv documents embeddings of
                       Some e \<Rightarrow> (Inl e, steps')
                     | None \<Rightarrow> (Inr (FAISS documents embeddings), steps'))))"

section \<open>The choice of the language model (question\_answering.py, app.py)\<close>












section \<open>The application (app.py, components.py)\<close>
















section \<open>Notions used to state the properties\<close>

text \<open>The three parts of what \<open>process_urls_with\<close> gives back.\<close>

definition returned :: "'a \<times> call list \<times> 'w \<Rightarrow> 'a" where
  "returned r = fst r"

definition calls_made :: "'a \<times> call list \<times> 'w \<Rightarrow> call list" where
  "calls_made r = fst (snd r)"

definition world_after :: "'a \<times> call list \<times> 'w \<Rightarrow> 'w" where
  "world_after r = snd (snd r)"

definition keys :: "contents \<Rightarrow> pystr set" where
  "keys d = set (map fst d)"

text \<open>The test of line 45: a document the orchestrator enters into the dictionary.\<close>

definition usable :: "document \<Rightarrow> bool" where
  "usable doc =
     (case metadata_get doc ''source'' of
        None \<Rightarrow> False
      | Some url \<Rightarrow> url \<noteq> [] \<and> \<not> startswith (page_content doc) (py ''Error''))"

text \<open>
  Normalization as the specification words it: trim every entry, drop the blank ones,
  put \<^verbatim>\<open>https://\<close> before every entry that begins with neither scheme.
\<close>

definition normalized_urls :: "pystr list \<Rightarrow> pystr list" where
  "normalized_urls urls =
     map (\<lambda>url. if startswith url (py ''http://'') \<or> startswith url (py ''https://'') then url
                else py ''https://'' @ url)
       (filter (\<lambda>url. url \<noteq> []) (map strip urls))"

text \<open>The URLs a call hands to its extractor, and the request that extractor sends.\<close>

fun call_urls :: "call \<Rightarrow> pystr list" where
  "call_urls (CallHtml2text urls) = urls"
| "call_urls (CallLangchain url) = [url]"
| "call_urls (CallFromUrl url) = [url]"

fun request_of :: "call \<Rightarrow> request" where
  "request_of (CallHtml2text urls) = AsyncHtmlLoad urls"
| "request_of (CallLangchain url) = WebBaseLoad url"
| "request_of (CallFromUrl url) = HttpGet url"

fun request_urls :: "request \<Rightarrow> pystr list" where
  "request_urls (AsyncHtmlLoad urls) = urls"
| "request_urls (WebBaseLoad url) = [url]"
| "request_urls (HttpGet url) = [url]"

text \<open>
  \<^verbatim>\<open>AsyncHtmlLoader\<close> labels each document with the URL it was loaded from, and the
  transformer keeps the label. \<open>batch_sources_ok w urls\<close> says so of the answer the
  world gives to the batch request for \<open>urls\<close>: every source among the transformed
  documents is one of \<open>urls\<close>.
\<close>

definition sources_among :: "pystr list \<Rightarrow> document list \<Rightarrow> bool" where
  "sources_among urls docs =
     list_all (\<lambda>doc. case metadata_get doc ''source'' of
                       None \<Rightarrow> True
                     | Some url \<Rightarrow> url \<in> set urls) docs"

definition batch_sources_ok :: "world \<Rightarrow> pystr list \<Rightarrow> bool" where
  "batch_sources_ok w urls =
     (case async_html_load w (now w) urls of
        Inl e \<Rightarrow> True
      | Inr docs \<Rightarrow>
          (case html2text_transform w docs of
             Inl e \<Rightarrow> True
           | Inr docs_transformed \<Rightarrow> sources_among urls docs_transformed))"

text \<open>
  The results of the single-URL extractor on the URLs in order, each call in the world
  the call before left, and the test of line 57 on one result: it yields content when
  it is a list whose first document does not begin with \<^verbatim>\<open>Error\<close>.
\<close>

definition yields_content :: "exn + document list \<Rightarrow> bool" where
  "yields_content r =
     (case r of
        Inl e \<Rightarrow> False
      | Inr docs \<Rightarrow>
          (case docs of
             [] \<Rightarrow> False
           | doc # _ \<Rightarrow> \<not> startswith (page_content doc) (py ''Error'')))"

fun langchain_outcomes ::
  "'w extractors \<Rightarrow> pystr list \<Rightarrow> 'w \<Rightarrow> (exn + document list) list \<times> 'w" where
  "langchain_outcomes ex [] w = ([], w)"
| "langchain_outcomes ex (url # urls) w =
     (case x_langchain ex url w of
        (r, w') \<Rightarrow>
          (case langchain_outcomes ex urls w' of (rs, w'') \<Rightarrow> (r # rs, w'')))"

text \<open>
  The results of the simple extractor on the URLs in order, each call in the world the
  call before left, up to and including the first call that raises.
\<close>

fun from_url_outcomes ::
  "'w extractors \<Rightarrow> pystr list \<Rightarrow> 'w \<Rightarrow> (exn + pystr) list \<times> 'w" where
  "from_url_outcomes ex [] w = ([], w)"
| "from_url_outcomes ex (url # urls) w =
     (case x_from_url ex url w of
        (Inl e, w') \<Rightarrow> ([Inl e], w')
      | (Inr content, w') \<Rightarrow>
          (case from_url_outcomes ex urls w' of (rs, w'') \<Rightarrow> (Inr content # rs, w'')))"





subsection \<open>Two worlds and two configurations, for concrete runs\<close>

text \<open>A world where every request fails, and one where every URL serves a page.\<close>

definition offline_world :: world where
  "offline_world =
     \<lparr>http_get_text = (\<lambda>n url. Inl (Exception (py ''Connection refused''))),
      web_base_load = (\<lambda>n url. Inl (Exception (py ''Connection refused''))),
      async_html_load = (\<lambda>n urls. Inl (Exception (py ''Connection refused''))),
      html2text_transform = (\<lambda>docs. Inr docs),
      requests = []\<rparr>"

definition site_world :: "(pystr \<Rightarrow> pystr) \<Rightarrow> world" where
  "site_world page =
     \<lparr>http_get_text = (\<lambda>n url. Inr (page url)),
      web_base_load =
        (\<lambda>n url. Inr [\<lparr>page_content = page url, metadata = [(''source'', url)]\<rparr>]),
      async_html_load =
        (\<lambda>n urls. Inr (map (\<lambda>url. \<lparr>page_content = page url, metadata = [(''source'', url)]\<rparr>) urls)),
      html2text_transform = (\<lambda>docs. Inr docs),
      requests = []\<rparr>"

definition example_site :: "pystr \<Rightarrow> pystr" where
  "example_site url =
     (if url = py ''https://a.example'' then py ''  tiny  ''
      else if url = py ''https://b.example'' then py ''Error codes explained''
      else py ''Hello   world,  this is a page'')"

definition batch_down_world :: world where
  "batch_down_world =
     (site_world example_site)
       \<lparr>async_html_load := (\<lambda>n urls. Inl (Exception (py ''Connection refused'')))\<rparr>"









section \<open>Strings: facts about \<open>strip\<close>, \<open>join\<close> and \<open>startswith\<close>\<close>

lemmas run_defs =
  process_urls_def process_urls_with_def try_langchain_def finish_def extractors_def
  returning_def extract_content_from_url_def extract_content_with_langchain_def
  extract_content_with_html2text_def error_extracting_def error_document_def
  batch_error_document_def now_def sent_def strip_def isspace_def startswith_any_def
  startswith_def py_def Let_def returned_def calls_made_def world_after_def metadata_get_def
  clean_text_def splitlines_def split_two_spaces_def is_linebreak_def

lemma error_extracting_startswith: "startswith (error_extracting url reason) (py ''Error'')"
  by (simp add: error_extracting_def startswith_def py_def)

lemma length_strip_le: "length (strip s) \<le> length s"
proof -
  have "length (dropWhile isspace (rev (dropWhile isspace s))) \<le> length (rev (dropWhile isspace s))"
    by (rule length_dropWhile_le)
  also have "\<dots> \<le> length s"
    by (simp add: length_dropWhile_le)
  finally show ?thesis
    by (simp add: strip_def)
qed

lemma last_dropWhile: "dropWhile P xs \<noteq> [] \<Longrightarrow> last (dropWhile P xs) = last xs"
  by (induction xs) (auto split: if_splits)

text \<open>What \<open>strip\<close> returns neither begins nor ends with whitespace.\<close>

lemma strip_ends:
  assumes "strip s \<noteq> []"
  shows "\<not> isspace (hd (strip s))" and "\<not> isspace (last (strip s))"
proof -
  let ?y = "dropWhile isspace s"
  let ?z = "dropWhile isspace (rev ?y)"
  from assms have z: "?z \<noteq> []"
    by (simp add: strip_def)
  then have y: "?y \<noteq> []"
    by (cases "?y") auto
  have "\<not> isspace (hd ?z)"
    using z by (rule hd_dropWhile)
  then show "\<not> isspace (last (strip s))"
    using z by (simp add: strip_def last_rev)
  have "last ?z = last (rev ?y)"
    using z by (rule last_dropWhile)
  also have "\<dots> = hd ?y"
    using y by (simp add: last_rev)
  finally have "last ?z = hd ?y" .
  moreover have "\<not> isspace (hd ?y)"
    using y by (rule hd_dropWhile)
  ultimately show "\<not> isspace (hd (strip s))"
    using z by (simp add: strip_def hd_rev)
qed

lemma strip_fixed:
  assumes "s \<noteq> []" and "\<not> isspace (hd s)" and "\<not> isspace (last s)"
  shows "strip s = s"
proof -
  have front: "dropWhile isspace s = s"
    using assms by (cases s) auto
  have "rev s \<noteq> []"
    using assms by simp
  moreover have "\<not> isspace (hd (rev s))"
    using assms by (simp add: hd_rev)
  ultimately have rear: "dropWhile isspace (rev s) = rev s"
    by (cases "rev s") auto
  show ?thesis
    by (simp add: strip_def front rear)
qed

lemma join_hd_last:
  assumes "xs \<noteq> []" and "\<forall>x\<in>set xs. x \<noteq> []"
  shows "join sep xs \<noteq> [] \<and> hd (join sep xs) = hd (hd xs) \<and> last (join sep xs) = last (last xs)"
  using assms
proof (induction sep xs rule: join.induct)
  case (1 sep)
  then show ?case by simp
next
  case (2 sep x)
  then show ?case by simp
next
  case (3 sep x y ys)
  then show ?case by auto
qed

lemma strip_join_stripped:
  assumes "\<forall>x\<in>set xs. x \<noteq> [] \<and> \<not> isspace (hd x) \<and> \<not> isspace (last x)"
  shows "strip (join sep xs) = join sep xs"
proof (cases xs)
  case Nil
  then show ?thesis by (simp add: strip_def)
next
  case (Cons a as)
  then have ne: "xs \<noteq> []" by simp
  have all: "\<forall>x\<in>set xs. x \<noteq> []"
    using assms by blast
  from join_hd_last[OF ne all, of sep]
  have j: "join sep xs \<noteq> []" "hd (join sep xs) = hd (hd xs)" "last (join sep xs) = last (last xs)"
    by blast+
  have "hd xs \<in> set xs" "last xs \<in> set xs"
    using ne by simp_all
  then have "\<not> isspace (hd (hd xs))" "\<not> isspace (last (last xs))"
    using assms by blast+
  then show ?thesis
    using j by (intro strip_fixed) simp_all
qed

text \<open>
  The cleaned text of the single-page extractor is already stripped, so line 39 tests
  its own length.
\<close>

lemma strip_clean_text: "strip (clean_text raw) = clean_text raw"
  unfolding clean_text_def Let_def
  by (rule strip_join_stripped) (auto dest: strip_ends)

section \<open>The single-page extractor\<close>

text \<open>
  C4. For every URL, when the page is fetched and its cleaned text is empty or has
  fewer than 10 characters, \<open>extract_content_from_url\<close> gives the failure string
  \<^verbatim>\<open>Error extracting content from <url>: Content was empty or too short\<close>, which begins
  with \<^verbatim>\<open>Error\<close>, and not the short text; otherwise it gives the cleaned text unchanged.
\<close>

theorem extract_content_from_url_threshold:
  "http_get_text w (now w) url = Inr raw \<Longrightarrow>
   fst (extract_content_from_url url w) =
     (if clean_text raw = [] \<or> length (clean_text raw) < 10
      then error_extracting url (py ''Content was empty or too short'')
      else clean_text raw) \<and>
   startswith (error_extracting url (py ''Content was empty or too short'')) (py ''Error'')"
  by (auto simp: extract_content_from_url_def Let_def strip_clean_text
        error_extracting_startswith)

theorem extract_content_from_url_threshold_witness:
  "http_get_text (site_world example_site) (now (site_world example_site))
     (py ''https://a.example'') = Inr (py ''  tiny  '') \<and>
   clean_text (py ''  tiny  '') = py ''tiny'' \<and>
   fst (extract_content_from_url (py ''https://a.example'') (site_world example_site)) =
     py ''Error extracting content from https://a.example: Content was empty or too short''"
proof -
  have h: "http_get_text (site_world example_site) (now (site_world example_site))
     (py ''https://a.example'') = Inr (py ''  tiny  '')"
    by (simp add: site_world_def example_site_def)
  have c: "clean_text (py ''  tiny  '') = py ''tiny''"
    by (simp add: run_defs)
  show ?thesis
    using h c extract_content_from_url_threshold[OF h]
    by (simp add: error_extracting_def py_def)
qed

section \<open>The orchestrator: which extractors are called, and in what order\<close>

lemma clean_urls_loop_acc: "clean_urls_loop acc urls = acc @ normalized_urls urls"
  by (induction urls arbitrary: acc)
     (simp_all add: normalized_urls_def Let_def startswith_any_def)

lemma clean_urls_normalized: "clean_urls_loop [] urls = normalized_urls urls"
  by (simp add: clean_urls_loop_acc)

lemma batch_loop_unusable: "\<forall>doc\<in>set docs. \<not> usable doc \<Longrightarrow> batch_loop docs st = st"
  by (induction docs st rule: batch_loop.induct)
     (auto simp: usable_def split: option.splits)

lemma langchain_loop_calls:
  "fst (snd (snd (langchain_loop ex urls (contents, hv, calls, w)))) =
     calls @ map CallLangchain urls"
  by (induction urls arbitrary: contents hv calls w)
     (simp_all split: prod.splits sum.splits list.splits)

text \<open>
  The two loops over the simple extractor stop at the first exception, so they call it
  for an initial part of the URLs.
\<close>

lemma from_url_checked_loop_calls:
  "\<exists>n. fst (snd (snd (snd (from_url_checked_loop ex urls (contents, hv, calls, w))))) =
        calls @ map CallFromUrl (take n urls)"
proof (induction urls arbitrary: contents hv calls w)
  case Nil
  then show ?case by simp
next
  case (Cons url urls)
  obtain res w1 where x: "x_from_url ex url w = (res, w1)"
    by (cases "x_from_url ex url w")
  show ?case
  proof (cases res)
    case (Inl e)
    with x have
      "fst (snd (snd (snd (from_url_checked_loop ex (url # urls) (contents, hv, calls, w))))) =
         calls @ map CallFromUrl (take 1 (url # urls))"
      by simp
    then show ?thesis by blast
  next
    case (Inr content)
    define st where "st =
       (if \<not> startswith content (py ''Error'')
        then (dict_set url content contents, True, calls @ [CallFromUrl url], w1)
        else (contents, hv, calls @ [CallFromUrl url], w1))"
    have step: "from_url_checked_loop ex (url # urls) (contents, hv, calls, w) =
        from_url_checked_loop ex urls st"
      using x Inr by (simp add: st_def)
    obtain c2 h2 where st: "st = (c2, h2, calls @ [CallFromUrl url], w1)"
      by (cases "startswith content (py ''Error'')") (simp_all add: st_def)
    from Cons.IH[of c2 h2 "calls @ [CallFromUrl url]" w1] obtain n where
      "fst (snd (snd (snd (from_url_checked_loop ex urls st)))) =
         (calls @ [CallFromUrl url]) @ map CallFromUrl (take n urls)"
      unfolding st by blast
    then have
      "fst (snd (snd (snd (from_url_checked_loop ex (url # urls) (contents, hv, calls, w))))) =
         calls @ map CallFromUrl (take (Suc n) (url # urls))"
      unfolding step by simp
    then show ?thesis by blast
  qed
qed

lemma from_url_loop_calls:
  "\<exists>n. fst (snd (snd (from_url_loop ex urls (contents, calls, w)))) =
        calls @ map CallFromUrl (take n urls)"
proof (induction urls arbitrary: contents calls w)
  case Nil
  then show ?case by simp
next
  case (Cons url urls)
  obtain res w1 where x: "x_from_url ex url w = (res, w1)"
    by (cases "x_from_url ex url w")
  show ?case
  proof (cases res)
    case (Inl e)
    with x have "fst (snd (snd (from_url_loop ex (url # urls) (contents, calls, w)))) =
        calls @ map CallFromUrl (take 1 (url # urls))"
      by simp
    then show ?thesis by blast
  next
    case (Inr content)
    from Cons.IH[of "dict_set url content contents" "calls @ [CallFromUrl url]" w1]
    obtain n where
      "fst (snd (snd (from_url_loop ex urls
           (dict_set url content contents, calls @ [CallFromUrl url], w1)))) =
         (calls @ [CallFromUrl url]) @ map CallFromUrl (take n urls)"
      by blast
    then have "fst (snd (snd (from_url_loop ex (url # urls) (contents, calls, w)))) =
        calls @ map CallFromUrl (take (Suc n) (url # urls))"
      using x Inr by simp
    then show ?thesis by blast
  qed
qed

lemma calls_made_finish: "calls_made (finish r) = fst (snd (snd r))"
  by (cases r; cases "fst r") (auto simp: finish_def calls_made_def)

lemma world_after_finish: "world_after (finish r) = snd (snd (snd r))"
  by (cases r; cases "fst r") (auto simp: finish_def world_after_def)

lemma calls_made_finish_from_url_loop:
  "\<exists>n. calls_made (finish (from_url_loop ex urls (contents, calls, w))) =
        calls @ map CallFromUrl (take n urls)"
  using from_url_loop_calls[of ex urls contents calls w]
  by (simp add: calls_made_finish)

text \<open>The calls of the \<^verbatim>\<open>try\<close> body in general: the batch call, then per-URL calls.\<close>

lemma try_langchain_calls:
  "\<exists>ls n. fst (snd (snd (snd (try_langchain ex clean w)))) =
           CallHtml2text clean # map CallLangchain ls @ map CallFromUrl (take n clean) \<and>
           set ls \<subseteq> set clean"
proof -
  obtain res w1 where x: "x_html2text ex clean w = (res, w1)"
    by (cases "x_html2text ex clean w")
  show ?thesis
  proof (cases res)
    case (Inl e)
    with x have "fst (snd (snd (snd (try_langchain ex clean w)))) =
        CallHtml2text clean # map CallLangchain [] @ map CallFromUrl (take 0 clean)"
      by (simp add: try_langchain_def)
    then show ?thesis
      by (metis empty_set empty_subsetI)
  next
    case (Inr docs)
    obtain c1 h1 where b: "batch_loop docs ([], False) = (c1, h1)"
      by (cases "batch_loop docs ([], False)")
    define ls where "ls = (if \<not> h1 then clean else [])"
    define st2 where "st2 =
       (if \<not> h1 then langchain_loop ex clean (c1, h1, [CallHtml2text clean], w1)
        else (c1, h1, [CallHtml2text clean], w1))"
    obtain c2 h2 cs2 w2 where st2: "st2 = (c2, h2, cs2, w2)"
      by (cases st2) auto
    have cs2: "cs2 = CallHtml2text clean # map CallLangchain ls"
      using langchain_loop_calls[of ex clean c1 h1 "[CallHtml2text clean]" w1] st2
      by (auto simp: st2_def ls_def split: if_splits)
    have t: "try_langchain ex clean w =
        (if \<not> h2 then from_url_checked_loop ex clean (c2, h2, cs2, w2)
         else (None, c2, h2, cs2, w2))"
      using x Inr b st2 by (simp add: try_langchain_def st2_def)
    from from_url_checked_loop_calls[of ex clean c2 h2 cs2 w2] obtain n where
      n: "fst (snd (snd (snd (from_url_checked_loop ex clean (c2, h2, cs2, w2))))) =
            cs2 @ map CallFromUrl (take n clean)"
      by blast
    have "fst (snd (snd (snd (try_langchain ex clean w)))) =
        CallHtml2text clean # map CallLangchain ls @
        map CallFromUrl (take (if \<not> h2 then n else 0) clean)"
      using n by (cases h2) (simp_all add: t cs2)
    moreover have "set ls \<subseteq> set clean"
      by (auto simp: ls_def)
    ultimately show ?thesis by blast
  qed
qed

lemma process_urls_with_calls:
  "\<exists>batch ls rest. calls_made (process_urls_with ex urls use_langchain w) =
       map CallHtml2text batch @ map CallLangchain ls @ map CallFromUrl rest \<and>
       set batch \<subseteq> {clean_urls_loop [] urls} \<and>
       set ls \<subseteq> set (clean_urls_loop [] urls) \<and> set rest \<subseteq> set (clean_urls_loop [] urls)"
proof -
  let ?clean = "clean_urls_loop [] urls"
  show ?thesis
  proof (cases "use_langchain \<and> ?clean \<noteq> []")
    case False
    then have p: "process_urls_with ex urls use_langchain w =
        finish (from_url_loop ex ?clean ([], [], w))"
      by (auto simp: process_urls_with_def Let_def)
    from calls_made_finish_from_url_loop[of ex ?clean "[]" "[]" w] obtain n where
      "calls_made (process_urls_with ex urls use_langchain w) =
         map CallHtml2text [] @ map CallLangchain [] @ map CallFromUrl (take n ?clean)"
      unfolding p by auto
    moreover have "set (take n ?clean) \<subseteq> set ?clean"
      by (rule set_take_subset)
    ultimately show ?thesis
      by (metis empty_set empty_subsetI)
  next
    case True
    obtain r c hv cs w' where t: "try_langchain ex ?clean w = (r, c, hv, cs, w')"
      by (cases "try_langchain ex ?clean w") auto
    from try_langchain_calls[of ex ?clean w] t obtain ls n where
      cs: "cs = map CallHtml2text [?clean] @ map CallLangchain ls @
                map CallFromUrl (take n ?clean)"
      and ls: "set ls \<subseteq> set ?clean"
      by auto
    have "\<exists>m. calls_made (process_urls_with ex urls use_langchain w) =
        cs @ map CallFromUrl (take m ?clean)"
    proof (cases r)
      case None
      with t True have "calls_made (process_urls_with ex urls use_langchain w) =
          cs @ map CallFromUrl (take 0 ?clean)"
        by (simp add: process_urls_with_def Let_def calls_made_finish)
      then show ?thesis by blast
    next
      case (Some e)
      with t True have p: "process_urls_with ex urls use_langchain w =
          finish (from_url_loop ex ?clean (c, cs, w'))"
        by (simp add: process_urls_with_def Let_def)
      show ?thesis
        unfolding p by (rule calls_made_finish_from_url_loop)
    qed
    then obtain m where "calls_made (process_urls_with ex urls use_langchain w) =
        map CallHtml2text [?clean] @ map CallLangchain ls @
        map CallFromUrl (take n ?clean @ take m ?clean)"
      by (auto simp: cs)
    moreover have "set (take n ?clean @ take m ?clean) \<subseteq> set ?clean"
      using set_take_subset[of n ?clean] set_take_subset[of m ?clean] by auto
    moreover have "set [?clean] \<subseteq> {?clean}"
      by simp
    ultimately show ?thesis
      using ls by blast
  qed
qed

lemma process_urls_with_call_urls:
  assumes "c \<in> set (calls_made (process_urls_with ex urls use_langchain w))"
  shows "set (call_urls c) \<subseteq> set (clean_urls_loop [] urls)"
proof -
  from process_urls_with_calls[of ex urls use_langchain w] obtain batch ls rest where
    eq: "calls_made (process_urls_with ex urls use_langchain w) =
       map CallHtml2text batch @ map CallLangchain ls @ map CallFromUrl rest"
    and sub: "set batch \<subseteq> {clean_urls_loop [] urls}"
       "set ls \<subseteq> set (clean_urls_loop [] urls)" "set rest \<subseteq> set (clean_urls_loop [] urls)"
    by blast
  from assms show ?thesis
    unfolding eq using sub by auto
qed

subsection \<open>The requests the repository's extractors send\<close>

lemma requests_sent: "requests (sent r w) = requests w @ [r]"
  by (simp add: sent_def)

lemma snd_extract_from_url: "snd (extract_content_from_url url w) = sent (HttpGet url) w"
  by (simp add: extract_content_from_url_def Let_def split: sum.splits)

lemma snd_extract_langchain:
  "snd (extract_content_with_langchain url w) = sent (WebBaseLoad url) w"
  by (simp add: extract_content_with_langchain_def Let_def split: sum.splits list.splits)

lemma snd_extract_html2text:
  "snd (extract_content_with_html2text urls w) = sent (AsyncHtmlLoad urls) w"
  by (simp add: extract_content_with_html2text_def Let_def split: sum.splits)

lemma extractors_html2text:
  "x_html2text extractors urls w =
     (Inr (fst (extract_content_with_html2text urls w)), sent (AsyncHtmlLoad urls) w)"
  by (simp add: extractors_def returning_def snd_extract_html2text[symmetric] split: prod.splits)

lemma extractors_langchain:
  "x_langchain extractors url w =
     (Inr (fst (extract_content_with_langchain url w)), sent (WebBaseLoad url) w)"
  by (simp add: extractors_def returning_def snd_extract_langchain[symmetric] split: prod.splits)

lemma extractors_from_url:
  "x_from_url extractors url w =
     (Inr (fst (extract_content_from_url url w)), sent (HttpGet url) w)"
  by (simp add: extractors_def returning_def snd_extract_from_url[symmetric] split: prod.splits)

text \<open>
  Along every loop run with the repository's extractors, the requests of the world
  grow by exactly the requests of the calls made.
\<close>

lemma langchain_loop_requests:
  assumes "requests w = R @ map request_of calls"
  shows "requests (snd (snd (snd (langchain_loop extractors urls (contents, hv, calls, w))))) =
         R @ map request_of
               (fst (snd (snd (langchain_loop extractors urls (contents, hv, calls, w)))))"
  using assms
proof (induction urls arbitrary: contents hv calls w)
  case Nil
  then show ?case by simp
next
  case (Cons url urls)
  let ?w1 = "sent (WebBaseLoad url) w"
  let ?docs = "fst (extract_content_with_langchain url w)"
  define c2 h2 where "c2 =
       (case ?docs of
          [] \<Rightarrow> contents
        | doc # _ \<Rightarrow>
            if \<not> startswith (page_content doc) (py ''Error'')
            then dict_set url (page_content doc) contents else contents)"
    and "h2 =
       (case ?docs of
          [] \<Rightarrow> hv
        | doc # _ \<Rightarrow> if \<not> startswith (page_content doc) (py ''Error'') then True else hv)"
  have step: "langchain_loop extractors (url # urls) (contents, hv, calls, w) =
      langchain_loop extractors urls (c2, h2, calls @ [CallLangchain url], ?w1)"
    by (simp add: extractors_langchain c2_def h2_def split: list.splits)
  have "requests ?w1 = R @ map request_of (calls @ [CallLangchain url])"
    using Cons.prems by (simp add: requests_sent)
  from Cons.IH[OF this] show ?case
    unfolding step .
qed

lemma from_url_checked_loop_requests:
  assumes "requests w = R @ map request_of calls"
  shows "requests (snd (snd (snd (snd
           (from_url_checked_loop extractors urls (contents, hv, calls, w)))))) =
         R @ map request_of (fst (snd (snd (snd
           (from_url_checked_loop extractors urls (contents, hv, calls, w))))))"
  using assms
proof (induction urls arbitrary: contents hv calls w)
  case Nil
  then show ?case by simp
next
  case (Cons url urls)
  let ?w1 = "sent (HttpGet url) w"
  let ?content = "fst (extract_content_from_url url w)"
  define c2 h2 where "c2 =
       (if \<not> startswith ?content (py ''Error'') then dict_set url ?content contents
        else contents)"
    and "h2 = (if \<not> startswith ?content (py ''Error'') then True else hv)"
  have step: "from_url_checked_loop extractors (url # urls) (contents, hv, calls, w) =
      from_url_checked_loop extractors urls (c2, h2, calls @ [CallFromUrl url], ?w1)"
    by (simp add: extractors_from_url c2_def h2_def)
  have "requests ?w1 = R @ map request_of (calls @ [CallFromUrl url])"
    using Cons.prems by (simp add: requests_sent)
  from Cons.IH[OF this] show ?case
    unfolding step .
qed

lemma from_url_loop_requests:
  assumes "requests w = R @ map request_of calls"
  shows "requests (snd (snd (snd (from_url_loop extractors urls (contents, calls, w))))) =
         R @ map request_of (fst (snd (snd (from_url_loop extractors urls (contents, calls, w)))))"
  using assms
proof (induction urls arbitrary: contents calls w)
  case Nil
  then show ?case by simp
next
  case (Cons url urls)
  let ?w1 = "sent (HttpGet url) w"
  let ?content = "fst (extract_content_from_url url w)"
  have step: "from_url_loop extractors (url # urls) (contents, calls, w) =
      from_url_loop extractors urls
        (dict_set url ?content contents, calls @ [CallFromUrl url], ?w1)"
    by (simp add: extractors_from_url)
  have "requests ?w1 = R @ map request_of (calls @ [CallFromUrl url])"
    using Cons.prems by (simp add: requests_sent)
  from Cons.IH[OF this] show ?case
    unfolding step .
qed

lemma try_langchain_requests:
  "requests (snd (snd (snd (snd (try_langchain extractors clean w))))) =
     requests w @ map request_of (fst (snd (snd (snd (try_langchain extractors clean w)))))"
proof -
  let ?w1 = "sent (AsyncHtmlLoad clean) w"
  let ?docs = "fst (extract_content_with_html2text clean w)"
  obtain c1 h1 where b: "batch_loop ?docs ([], False) = (c1, h1)"
    by (cases "batch_loop ?docs ([], False)")
  define st2 where "st2 =
     (if \<not> h1 then langchain_loop extractors clean (c1, h1, [CallHtml2text clean], ?w1)
      else (c1, h1, [CallHtml2text clean], ?w1))"
  obtain c2 h2 cs2 w2 where st2: "st2 = (c2, h2, cs2, w2)"
    by (cases st2) auto
  have i1: "requests ?w1 = requests w @ map request_of [CallHtml2text clean]"
    by (simp add: requests_sent)
  have i2: "requests w2 = requests w @ map request_of cs2"
    using langchain_loop_requests[OF i1, of clean c1 h1] i1 st2
    by (cases h1) (auto simp: st2_def)
  have t: "try_langchain extractors clean w =
      (if \<not> h2 then from_url_checked_loop extractors clean (c2, h2, cs2, w2)
       else (None, c2, h2, cs2, w2))"
    using b st2 by (simp add: try_langchain_def st2_def extractors_html2text)
  show ?thesis
    using from_url_checked_loop_requests[OF i2, of clean c2 h2] i2
    by (cases h2) (auto simp: t)
qed

lemma process_urls_requests:
  "requests (world_after (process_urls urls use_langchain w)) =
     requests w @ map request_of (calls_made (process_urls urls use_langchain w))"
proof -
  let ?clean = "clean_urls_loop [] urls"
  have i0: "requests w = requests w @ map request_of []"
    by simp
  show ?thesis
  proof (cases "use_langchain \<and> ?clean \<noteq> []")
    case False
    then have p: "process_urls urls use_langchain w =
        finish (from_url_loop extractors ?clean ([], [], w))"
      by (auto simp: process_urls_def process_urls_with_def Let_def)
    show ?thesis
      unfolding p world_after_finish calls_made_finish
      by (rule from_url_loop_requests[OF i0])
  next
    case True
    obtain r c hv cs w' where t: "try_langchain extractors ?clean w = (r, c, hv, cs, w')"
      by (cases "try_langchain extractors ?clean w") auto
    from try_langchain_requests[of ?clean w] t
    have i1: "requests w' = requests w @ map request_of cs"
      by simp
    show ?thesis
    proof (cases r)
      case None
      with t True have "process_urls urls use_langchain w = finish (None, c, cs, w')"
        by (simp add: process_urls_def process_urls_with_def Let_def)
      then show ?thesis
        using i1 by (simp add: world_after_finish calls_made_finish)
    next
      case (Some e)
      with t True have p: "process_urls urls use_langchain w =
          finish (from_url_loop extractors ?clean (c, cs, w'))"
        by (simp add: process_urls_def process_urls_with_def Let_def)
      show ?thesis
        unfolding p world_after_finish calls_made_finish
        by (rule from_url_loop_requests[OF i1])
    qed
  qed
qed

lemma request_urls_of: "request_urls (request_of c) = call_urls c"
  by (cases c) simp_all

text \<open>
  C5. The loop of lines 24 to 31 computes the normalization the specification
  describes: every entry trimmed, the blank ones dropped, \<^verbatim>\<open>https://\<close> put before each
  entry that begins with neither \<^verbatim>\<open>http://\<close> nor \<^verbatim>\<open>https://\<close>. Every call the
  orchestrator makes, for any extractors, hands over normalized URLs only; and with the
  repository's extractors every request sent during \<open>process_urls\<close> is for normalized
  URLs only. So no fetch is attempted on an entry that is not normalized.
\<close>

theorem urls_normalized_before_fetch:
  "clean_urls_loop [] urls = normalized_urls urls \<and>
   (\<forall>c\<in>set (calls_made (process_urls_with ex urls use_langchain w)).
      set (call_urls c) \<subseteq> set (normalized_urls urls)) \<and>
   (\<exists>new. requests (world_after (process_urls urls use_langchain w0)) = requests w0 @ new \<and>
      (\<forall>r\<in>set new. set (request_urls r) \<subseteq> set (normalized_urls urls)))"
proof (intro conjI)
  show "clean_urls_loop [] urls = normalized_urls urls"
    by (rule clean_urls_normalized)
  show "\<forall>c\<in>set (calls_made (process_urls_with ex urls use_langchain w)).
      set (call_urls c) \<subseteq> set (normalized_urls urls)"
    using process_urls_with_call_urls[of _ ex urls use_langchain w]
    by (simp add: clean_urls_normalized)
  have "\<forall>r\<in>set (map request_of (calls_made (process_urls urls use_langchain w0))).
      set (request_urls r) \<subseteq> set (normalized_urls urls)"
    using process_urls_with_call_urls[of _ extractors urls use_langchain w0]
    by (auto simp: request_urls_of process_urls_def clean_urls_normalized)
  with process_urls_requests[of urls use_langchain w0]
  show "\<exists>new. requests (world_after (process_urls urls use_langchain w0)) = requests w0 @ new \<and>
      (\<forall>r\<in>set new. set (request_urls r) \<subseteq> set (normalized_urls urls))"
    by blast
qed

theorem urls_normalized_before_fetch_witness:
  "clean_urls_loop [] [py '' c.example '', py '' '', py ''http://b.org''] =
     [py ''https://c.example'', py ''http://b.org''] \<and>
   CallFromUrl (py ''https://c.example'') \<in>
     set (calls_made (process_urls_with extractors [py '' c.example '', py '' '', py ''http://b.org'']
            False offline_world)) \<and>
   set (call_urls (CallFromUrl (py ''https://c.example''))) \<subseteq>
     set (normalized_urls [py '' c.example '', py '' '', py ''http://b.org''])"
proof -
  let ?urls = "[py '' c.example '', py '' '', py ''http://b.org'']"
  have c: "clean_urls_loop [] ?urls = [py ''https://c.example'', py ''http://b.org'']"
    by (simp add: run_defs)
  have m: "CallFromUrl (py ''https://c.example'') \<in>
      set (calls_made (process_urls_with extractors ?urls False offline_world))"
    by (simp add: run_defs offline_world_def)
  from urls_normalized_before_fetch[of ?urls extractors False offline_world offline_world]
  have "\<forall>c\<in>set (calls_made (process_urls_with extractors ?urls False offline_world)).
      set (call_urls c) \<subseteq> set (normalized_urls ?urls)"
    by blast
  with m have "set (call_urls (CallFromUrl (py ''https://c.example''))) \<subseteq>
      set (normalized_urls ?urls)"
    by blast
  with c m show ?thesis
    by blast
qed

section \<open>The orchestrator: the keys of the dictionary returned\<close>

lemma map_fst_dict_set:
  "map fst (dict_set k v d) = (if k \<in> set (map fst d) then map fst d else map fst d @ [k])"
  by (induction d) force+

lemma keys_dict_set: "keys (dict_set k v d) = insert k (keys d)"
  by (auto simp: keys_def map_fst_dict_set)

lemma keys_Nil: "keys [] = {}"
  by (simp add: keys_def)

lemma batch_loop_keys:
  "keys (fst (batch_loop docs (contents, hv))) \<subseteq>
     keys contents \<union> {url. \<exists>doc\<in>set docs. usable doc \<and> metadata_get doc ''source'' = Some url}"
proof (induction docs arbitrary: contents hv)
  case Nil
  then show ?case by simp
next
  case (Cons doc docs)
  show ?case
  proof (cases "usable doc")
    case True
    then obtain url where u: "metadata_get doc ''source'' = Some url" "url \<noteq> []"
      "\<not> startswith (page_content doc) (py ''Error'')"
      by (auto simp: usable_def split: option.splits)
    then have "batch_loop (doc # docs) (contents, hv) =
        batch_loop docs (dict_set url (page_content doc) contents, True)"
      by simp
    moreover note Cons.IH[of "dict_set url (page_content doc) contents" True]
    ultimately show ?thesis
      using True u(1) by (auto simp: keys_dict_set)
  next
    case False
    then have "batch_loop (doc # docs) (contents, hv) = batch_loop docs (contents, hv)"
      by (auto simp: usable_def split: option.splits)
    moreover note Cons.IH[of contents hv]
    ultimately show ?thesis by auto
  qed
qed

lemma langchain_loop_keys:
  "keys (fst (langchain_loop ex urls (contents, hv, calls, w))) \<subseteq> keys contents \<union> set urls"
proof (induction urls arbitrary: contents hv calls w)
  case Nil
  then show ?case by simp
next
  case (Cons url urls)
  obtain res w1 where x: "x_langchain ex url w = (res, w1)"
    by (cases "x_langchain ex url w")
  define st where "st =
     (case res of
        Inl e \<Rightarrow> (contents, hv, calls @ [CallLangchain url], w1)
      | Inr docs \<Rightarrow>
          (case docs of
             [] \<Rightarrow> (contents, hv, calls @ [CallLangchain url], w1)
           | doc # _ \<Rightarrow>
               if \<not> startswith (page_content doc) (py ''Error'')
               then (dict_set url (page_content doc) contents, True,
                     calls @ [CallLangchain url], w1)
               else (contents, hv, calls @ [CallLangchain url], w1)))"
  have step: "langchain_loop ex (url # urls) (contents, hv, calls, w) = langchain_loop ex urls st"
    using x by (simp add: st_def split: sum.splits list.splits)
  have k: "keys (fst st) \<subseteq> insert url (keys contents)"
    by (auto simp: st_def keys_dict_set split: sum.splits list.splits)
  obtain c2 h2 cs2 w2 where st: "st = (c2, h2, cs2, w2)"
    by (cases st) auto
  from Cons.IH[of c2 h2 cs2 w2] k show ?case
    unfolding step st by auto
qed

lemma from_url_checked_loop_keys:
  "keys (fst (snd (from_url_checked_loop ex urls (contents, hv, calls, w)))) \<subseteq>
     keys contents \<union> set urls"
proof (induction urls arbitrary: contents hv calls w)
  case Nil
  then show ?case by simp
next
  case (Cons url urls)
  obtain res w1 where x: "x_from_url ex url w = (res, w1)"
    by (cases "x_from_url ex url w")
  show ?case
  proof (cases res)
    case (Inl e)
    with x show ?thesis by auto
  next
    case (Inr content)
    with x obtain c2 h2 cs2 where
      step: "from_url_checked_loop ex (url # urls) (contents, hv, calls, w) =
               from_url_checked_loop ex urls (c2, h2, cs2, w1)"
      and k: "keys c2 \<subseteq> insert url (keys contents)"
      by (cases "startswith content (py ''Error'')") (auto simp: keys_dict_set)
    from Cons.IH[of c2 h2 cs2 w1] k show ?thesis
      unfolding step by auto
  qed
qed

lemma from_url_loop_keys:
  "keys (fst (snd (from_url_loop ex urls (contents, calls, w)))) \<subseteq> keys contents \<union> set urls"
proof (induction urls arbitrary: contents calls w)
  case Nil
  then show ?case by simp
next
  case (Cons url urls)
  obtain res w1 where x: "x_from_url ex url w = (res, w1)"
    by (cases "x_from_url ex url w")
  show ?case
  proof (cases res)
    case (Inl e)
    with x show ?thesis by auto
  next
    case (Inr content)
    with x have step: "from_url_loop ex (url # urls) (contents, calls, w) =
        from_url_loop ex urls (dict_set url content contents, calls @ [CallFromUrl url], w1)"
      by simp
    from Cons.IH[of "dict_set url content contents" "calls @ [CallFromUrl url]" w1]
    show ?thesis
      unfolding step by (auto simp: keys_dict_set)
  qed
qed

lemma try_langchain_keys:
  assumes batch: "\<And>docs w1 doc url.
        x_html2text ex clean w = (Inr docs, w1) \<Longrightarrow> doc \<in> set docs \<Longrightarrow> usable doc \<Longrightarrow>
        metadata_get doc ''source'' = Some url \<Longrightarrow> url \<in> set clean"
  shows "keys (fst (snd (try_langchain ex clean w))) \<subseteq> set clean"
proof -
  obtain res w1 where x: "x_html2text ex clean w = (res, w1)"
    by (cases "x_html2text ex clean w")
  show ?thesis
  proof (cases res)
    case (Inl e)
    with x show ?thesis
      by (simp add: try_langchain_def keys_Nil)
  next
    case (Inr docs)
    obtain c1 h1 where b: "batch_loop docs ([], False) = (c1, h1)"
      by (cases "batch_loop docs ([], False)")
    from batch_loop_keys[of docs "[]" False] b batch[OF x[unfolded Inr]]
    have k1: "keys c1 \<subseteq> set clean"
      by (auto simp: keys_Nil)
    define st2 where "st2 =
       (if \<not> h1 then langchain_loop ex clean (c1, h1, [CallHtml2text clean], w1)
        else (c1, h1, [CallHtml2text clean], w1))"
    obtain c2 h2 cs2 w2 where st2: "st2 = (c2, h2, cs2, w2)"
      by (cases st2) auto
    have k2: "keys c2 \<subseteq> set clean"
      using langchain_loop_keys[of ex clean c1 h1 "[CallHtml2text clean]" w1] k1 st2
      by (auto simp: st2_def split: if_splits)
    have t: "try_langchain ex clean w =
        (if \<not> h2 then from_url_checked_loop ex clean (c2, h2, cs2, w2)
         else (None, c2, h2, cs2, w2))"
      using x Inr b st2 by (simp add: try_langchain_def st2_def)
    show ?thesis
      using from_url_checked_loop_keys[of ex clean c2 h2 cs2 w2] k2
      by (auto simp: t)
  qed
qed

lemma returned_finish_Inr: "returned (finish r) = Inr contents \<Longrightarrow> contents = fst (snd r)"
  by (cases r; cases "fst r") (auto simp: finish_def returned_def)

lemma returned_finish_None: "fst r = None \<Longrightarrow> returned (finish r) = Inr (fst (snd r))"
  by (cases r) (simp add: finish_def returned_def)

lemma process_urls_with_keys:
  assumes batch: "\<And>docs w1 doc url.
        use_langchain \<Longrightarrow> x_html2text ex (clean_urls_loop [] urls) w = (Inr docs, w1) \<Longrightarrow>
        doc \<in> set docs \<Longrightarrow> usable doc \<Longrightarrow> metadata_get doc ''source'' = Some url \<Longrightarrow>
        url \<in> set (clean_urls_loop [] urls)"
      and ret: "returned (process_urls_with ex urls use_langchain w) = Inr contents"
  shows "keys contents \<subseteq> set (clean_urls_loop [] urls)"
proof -
  let ?clean = "clean_urls_loop [] urls"
  show ?thesis
  proof (cases "use_langchain \<and> ?clean \<noteq> []")
    case False
    then have "process_urls_with ex urls use_langchain w =
        finish (from_url_loop ex ?clean ([], [], w))"
      by (auto simp: process_urls_with_def Let_def)
    with ret have "contents = fst (snd (from_url_loop ex ?clean ([], [], w)))"
      by (simp add: returned_finish_Inr)
    then show ?thesis
      using from_url_loop_keys[of ex ?clean "[]" "[]" w] by (simp add: keys_Nil)
  next
    case True
    obtain r c hv cs w' where t: "try_langchain ex ?clean w = (r, c, hv, cs, w')"
      by (cases "try_langchain ex ?clean w") auto
    from True have ul: "use_langchain"
      by simp
    from try_langchain_keys[of ex ?clean w, OF batch[OF ul]] t have kc: "keys c \<subseteq> set ?clean"
      by simp
    show ?thesis
    proof (cases r)
      case None
      with t True have "process_urls_with ex urls use_langchain w = finish (None, c, cs, w')"
        by (simp add: process_urls_with_def Let_def)
      with ret have "contents = c"
        by (simp add: finish_def returned_def)
      then show ?thesis
        using kc by simp
    next
      case (Some e)
      with t True have "process_urls_with ex urls use_langchain w =
          finish (from_url_loop ex ?clean (c, cs, w'))"
        by (simp add: process_urls_with_def Let_def)
      with ret have "contents = fst (snd (from_url_loop ex ?clean (c, cs, w')))"
        by (simp add: returned_finish_Inr)
      then show ?thesis
        using from_url_loop_keys[of ex ?clean c cs w'] kc by auto
    qed
  qed
qed

section \<open>The batch extractor\<close>

lemma validate_docs_filter:
  "validate_docs valid_docs docs =
     valid_docs @ filter (\<lambda>doc. 10 \<le> length (strip (page_content doc))) docs"
  by (induction docs arbitrary: valid_docs) simp_all

lemma batch_error_document_unusable: "\<not> usable (batch_error_document urls reason)"
  by (simp add: usable_def batch_error_document_def error_document_def metadata_get_def
        startswith_def py_def split: option.splits)

lemma insufficient_document_unusable:
  "\<not> usable (error_document
        (py ''Error extracting content from URLs: All documents had insufficient content'')
        source reason)"
  by (simp add: usable_def error_document_def metadata_get_def startswith_def py_def
        split: option.splits)

lemma batch_error_document_length: "10 \<le> length (page_content (batch_error_document urls reason))"
  by (simp add: batch_error_document_def error_document_def py_def)

text \<open>
  C3. For every list of URLs, \<open>extract_content_with_html2text\<close> never returns the empty
  list, and no document it returns has a text of fewer than 10 characters. When the
  loader and the transformer answer, the result is the transformed documents whose
  stripped text has at least 10 characters, in order; when none has, it is the single
  document \<^verbatim>\<open>Error extracting content from URLs: All documents had insufficient content\<close>.
\<close>

theorem html2text_drops_short_documents:
  "fst (extract_content_with_html2text urls w) \<noteq> [] \<and>
   (\<forall>doc\<in>set (fst (extract_content_with_html2text urls w)). 10 \<le> length (page_content doc)) \<and>
   (\<forall>docs docs_transformed.
      async_html_load w (now w) urls = Inr docs \<and> docs \<noteq> [] \<and>
      html2text_transform w docs = Inr docs_transformed \<longrightarrow>
      fst (extract_content_with_html2text urls w) =
        (if filter (\<lambda>doc. 10 \<le> length (strip (page_content doc))) docs_transformed = []
         then [error_document
                 (py ''Error extracting content from URLs: All documents had insufficient content'')
                 (join (py '', '') urls) (py ''Insufficient content'')]
         else filter (\<lambda>doc. 10 \<le> length (strip (page_content doc))) docs_transformed))"
proof (intro conjI allI impI ballI)
  show "fst (extract_content_with_html2text urls w) \<noteq> []"
    by (simp add: extract_content_with_html2text_def Let_def split: sum.splits)
next
  fix doc
  assume "doc \<in> set (fst (extract_content_with_html2text urls w))"
  then consider (err) reason where "doc = batch_error_document urls reason"
    | (ins) "doc = error_document
                 (py ''Error extracting content from URLs: All documents had insufficient content'')
                 (join (py '', '') urls) (py ''Insufficient content'')"
    | (ok) "10 \<le> length (strip (page_content doc))"
    by (auto simp: extract_content_with_html2text_def Let_def validate_docs_filter
          split: sum.splits if_splits)
  then show "10 \<le> length (page_content doc)"
  proof cases
    case err
    then show ?thesis
      by (simp add: batch_error_document_length)
  next
    case ins
    then show ?thesis
      by (simp add: error_document_def py_def)
  next
    case ok
    with length_strip_le[of "page_content doc"] show ?thesis
      by linarith
  qed
next
  fix docs docs_transformed
  assume "async_html_load w (now w) urls = Inr docs \<and> docs \<noteq> [] \<and>
      html2text_transform w docs = Inr docs_transformed"
  then show "fst (extract_content_with_html2text urls w) =
        (if filter (\<lambda>doc. 10 \<le> length (strip (page_content doc))) docs_transformed = []
         then [error_document
                 (py ''Error extracting content from URLs: All documents had insufficient content'')
                 (join (py '', '') urls) (py ''Insufficient content'')]
         else filter (\<lambda>doc. 10 \<le> length (strip (page_content doc))) docs_transformed)"
    by (simp add: extract_content_with_html2text_def Let_def validate_docs_filter)
qed

theorem html2text_drops_short_documents_witness:
  "fst (extract_content_with_html2text [py ''https://a.example'', py ''https://c.example'']
          (site_world example_site)) =
     [\<lparr>page_content = py ''Hello   world,  this is a page'',
       metadata = [(''source'', py ''https://c.example'')]\<rparr>] \<and>
   fst (extract_content_with_html2text [py ''https://a.example''] (site_world example_site)) =
     [\<lparr>page_content =
         py ''Error extracting content from URLs: All documents had insufficient content'',
       metadata = [(''source'', py ''https://a.example''),
                   (''error'', py ''Insufficient content'')]\<rparr>]"
proof -
  let ?w = "site_world example_site"
  let ?a = "\<lparr>page_content = py ''  tiny  '', metadata = [(''source'', py ''https://a.example'')]\<rparr>"
  let ?c = "\<lparr>page_content = py ''Hello   world,  this is a page'',
             metadata = [(''source'', py ''https://c.example'')]\<rparr>"
  have two: "async_html_load ?w (now ?w) [py ''https://a.example'', py ''https://c.example''] =
        Inr [?a, ?c] \<and> [?a, ?c] \<noteq> [] \<and> html2text_transform ?w [?a, ?c] = Inr [?a, ?c]"
    by (simp add: site_world_def example_site_def py_def)
  have one: "async_html_load ?w (now ?w) [py ''https://a.example''] = Inr [?a] \<and> [?a] \<noteq> [] \<and>
        html2text_transform ?w [?a] = Inr [?a]"
    by (simp add: site_world_def example_site_def py_def)
  from html2text_drops_short_documents[of "[py ''https://a.example'', py ''https://c.example'']" ?w]
    two
  have "fst (extract_content_with_html2text [py ''https://a.example'', py ''https://c.example''] ?w) =
      (if filter (\<lambda>doc. 10 \<le> length (strip (page_content doc))) [?a, ?c] = []
       then [error_document
               (py ''Error extracting content from URLs: All documents had insufficient content'')
               (join (py '', '') [py ''https://a.example'', py ''https://c.example''])
               (py ''Insufficient content'')]
       else filter (\<lambda>doc. 10 \<le> length (strip (page_content doc))) [?a, ?c])"
    by blast
  moreover
  from html2text_drops_short_documents[of "[py ''https://a.example'']" ?w] one
  have "fst (extract_content_with_html2text [py ''https://a.example''] ?w) =
      (if filter (\<lambda>doc. 10 \<le> length (strip (page_content doc))) [?a] = []
       then [error_document
               (py ''Error extracting content from URLs: All documents had insufficient content'')
               (join (py '', '') [py ''https://a.example'']) (py ''Insufficient content'')]
       else filter (\<lambda>doc. 10 \<le> length (strip (page_content doc))) [?a])"
    by blast
  ultimately show ?thesis
    by (simp add: error_document_def strip_def isspace_def py_def)
qed

section \<open>The orchestrator with the repository's extractors\<close>

lemma html2text_usable_source:
  assumes ok: "batch_sources_ok w urls"
      and doc: "doc \<in> set (fst (extract_content_with_html2text urls w))"
      and us: "usable doc"
      and src: "metadata_get doc ''source'' = Some url"
  shows "url \<in> set urls"
proof (cases "async_html_load w (now w) urls")
  case (Inl e)
  with doc us show ?thesis
    by (simp add: extract_content_with_html2text_def Let_def batch_error_document_unusable)
next
  case (Inr docs)
  note load = this
  show ?thesis
  proof (cases "docs = []")
    case True
    with load doc us show ?thesis
      by (simp add: extract_content_with_html2text_def Let_def batch_error_document_unusable)
  next
    case False
    show ?thesis
    proof (cases "html2text_transform w docs")
      case (Inl e)
      with load False doc us show ?thesis
        by (simp add: extract_content_with_html2text_def Let_def batch_error_document_unusable)
    next
      case (Inr dt)
      from ok load Inr have among: "sources_among urls dt"
        by (simp add: batch_sources_ok_def)
      have "doc \<in> set dt"
        using load False Inr doc us
        by (auto simp: extract_content_with_html2text_def Let_def validate_docs_filter
              insufficient_document_unusable split: if_splits)
      with among src show ?thesis
        by (auto simp: sources_among_def list_all_iff)
    qed
  qed
qed

text \<open>An orchestrator whose extractors always return never raises itself.\<close>

lemma from_url_loop_returns:
  "(\<And>url w. \<exists>content w'. x_from_url ex url w = (Inr content, w'))
   \<Longrightarrow> fst (from_url_loop ex urls (contents, calls, w)) = None"
proof (induction urls arbitrary: contents calls w)
  case Nil
  then show ?case by simp
next
  case (Cons url urls)
  from Cons.prems[of url w] obtain content w' where "x_from_url ex url w = (Inr content, w')"
    by blast
  then show ?case
    using Cons.IH[OF Cons.prems] by simp
qed

lemma from_url_checked_loop_returns:
  "(\<And>url w. \<exists>content w'. x_from_url ex url w = (Inr content, w'))
   \<Longrightarrow> fst (from_url_checked_loop ex urls (contents, hv, calls, w)) = None"
proof (induction urls arbitrary: contents hv calls w)
  case Nil
  then show ?case by simp
next
  case (Cons url urls)
  from Cons.prems[of url w] obtain content w' where "x_from_url ex url w = (Inr content, w')"
    by blast
  then show ?case
    using Cons.IH[OF Cons.prems] by simp
qed

lemma try_langchain_returns:
  assumes "\<And>url w. \<exists>content w'. x_from_url ex url w = (Inr content, w')"
      and "\<And>urls w. \<exists>docs w'. x_html2text ex urls w = (Inr docs, w')"
  shows "fst (try_langchain ex clean w) = None"
proof -
  from assms(2)[of clean w] obtain docs w1 where x: "x_html2text ex clean w = (Inr docs, w1)"
    by blast
  show ?thesis
    using x from_url_checked_loop_returns[of ex, OF assms(1)]
    by (auto simp: try_langchain_def split: prod.splits)
qed

lemma process_urls_with_returns:
  assumes f: "\<And>url w. \<exists>content w'. x_from_url ex url w = (Inr content, w')"
      and h: "\<And>urls w. \<exists>docs w'. x_html2text ex urls w = (Inr docs, w')"
  shows "\<exists>contents. returned (process_urls_with ex urls use_langchain w) = Inr contents"
proof (cases "use_langchain \<and> clean_urls_loop [] urls \<noteq> []")
  case False
  then have "process_urls_with ex urls use_langchain w =
      finish (from_url_loop ex (clean_urls_loop [] urls) ([], [], w))"
    by (auto simp: process_urls_with_def Let_def)
  then show ?thesis
    using returned_finish_None[OF from_url_loop_returns[of ex, OF f]] by simp
next
  case True
  obtain r c hv cs w' where t: "try_langchain ex (clean_urls_loop [] urls) w = (r, c, hv, cs, w')"
    by (cases "try_langchain ex (clean_urls_loop [] urls) w") auto
  from try_langchain_returns[of ex "clean_urls_loop [] urls" w, OF f h] t have "r = None"
    by simp
  with t True have "process_urls_with ex urls use_langchain w = finish (None, c, cs, w')"
    by (simp add: process_urls_with_def Let_def)
  then show ?thesis
    by (simp add: finish_def returned_def)
qed

text \<open>
  C6. For every list of input strings and either strategy, \<open>process_urls\<close> returns a
  dictionary, and each of its keys is one of the normalized input URLs. With the simple
  strategy this holds in every world. With the structure-preserving strategy the keys
  of the batch path are read from the source label of the documents, so it holds
  provided the documents that loader and transformer give for the batch carry as
  source one of the URLs requested, which is how \<^verbatim>\<open>AsyncHtmlLoader\<close> labels them.
\<close>

theorem process_urls_keys_subset:
  assumes "use_langchain \<longrightarrow> batch_sources_ok w (clean_urls_loop [] urls)"
  shows "\<exists>contents. returned (process_urls urls use_langchain w) = Inr contents \<and>
           keys contents \<subseteq> set (clean_urls_loop [] urls)"
proof -
  have f: "\<And>url w. \<exists>content w'. x_from_url extractors url w = (Inr content, w')"
    by (simp add: extractors_from_url)
  have h: "\<And>urls w. \<exists>docs w'. x_html2text extractors urls w = (Inr docs, w')"
    by (simp add: extractors_html2text)
  from process_urls_with_returns[of extractors urls use_langchain w, OF f h]
  obtain contents where r: "returned (process_urls urls use_langchain w) = Inr contents"
    by (auto simp: process_urls_def)
  have "keys contents \<subseteq> set (clean_urls_loop [] urls)"
  proof (rule process_urls_with_keys[of use_langchain extractors urls w contents])
    fix docs w1 doc url
    assume ul: "use_langchain"
      and "x_html2text extractors (clean_urls_loop [] urls) w = (Inr docs, w1)"
      and "doc \<in> set docs" and "usable doc" and "metadata_get doc ''source'' = Some url"
    moreover from ul assms have "batch_sources_ok w (clean_urls_loop [] urls)"
      by simp
    ultimately show "url \<in> set (clean_urls_loop [] urls)"
      using html2text_usable_source[of w "clean_urls_loop [] urls" doc url]
      by (simp add: extractors_html2text)
  next
    show "returned (process_urls_with extractors urls use_langchain w) = Inr contents"
      using r by (simp add: process_urls_def)
  qed
  with r show ?thesis by blast
qed

theorem process_urls_keys_subset_witness:
  "batch_sources_ok (site_world example_site)
     (clean_urls_loop [] [py '' c.example'', py ''https://a.example'', py ''b.example'']) \<and>
   returned (process_urls [py '' c.example'', py ''https://a.example'', py ''b.example''] True
     (site_world example_site)) =
     Inr [(py ''https://c.example'', py ''Hello   world,  this is a page'')] \<and>
   (\<exists>contents.
      returned (process_urls [py '' c.example'', py ''https://a.example'', py ''b.example''] True
        (site_world example_site)) = Inr contents \<and>
      keys contents \<subseteq>
        set (clean_urls_loop [] [py '' c.example'', py ''https://a.example'', py ''b.example'']))"
proof -
  let ?urls = "[py '' c.example'', py ''https://a.example'', py ''b.example'']"
  have ok: "batch_sources_ok (site_world example_site) (clean_urls_loop [] ?urls)"
    by (simp add: run_defs site_world_def example_site_def batch_sources_ok_def
          sources_among_def)
  then have hyp: "True \<longrightarrow> batch_sources_ok (site_world example_site) (clean_urls_loop [] ?urls)"
    by simp
  have run: "returned (process_urls ?urls True (site_world example_site)) =
      Inr [(py ''https://c.example'', py ''Hello   world,  this is a page'')]"
    by (simp add: run_defs site_world_def example_site_def)
  from process_urls_keys_subset[OF hyp] ok run show ?thesis
    by blast
qed

text \<open>
  C1. The claim is that the dictionary \<open>process_urls\<close> returns holds no content that
  begins with \<^verbatim>\<open>Error\<close>. Run with the simple strategy on two URLs, one of which serves
  a page too short to keep: the dictionary returned maps that URL to the failure
  string of the extractor, while the final check of lines 88 to 93, applied to the
  same dictionary, keeps the other URL only. Line 100 returns the dictionary, not what
  the final check built.
\<close>

theorem process_urls_returns_error_placeholder:
  "returned (process_urls [py ''c.example'', py ''a.example''] False (site_world example_site)) =
     Inr [(py ''https://c.example'', py ''Hello\<newline>world,\<newline>this is a page''),
          (py ''https://a.example'',
           py ''Error extracting content from https://a.example: Content was empty or too short'')] \<and>
   final_check []
     [(py ''https://c.example'', py ''Hello\<newline>world,\<newline>this is a page''),
      (py ''https://a.example'',
       py ''Error extracting content from https://a.example: Content was empty or too short'')] =
     [(py ''https://c.example'', py ''Hello\<newline>world,\<newline>this is a page'')]"
  by (simp add: run_defs site_world_def example_site_def)

section \<open>Documents, chunks, the vector store and the choice of the model\<close>

lemma create_documents_loop_filter:
  "create_documents_loop documents contents =
     documents @
     map (\<lambda>(url, content). \<lparr>page_content = content, metadata = [(''source'', url)]\<rparr>)
       (filter (\<lambda>(url, content). \<not> startswith content (py ''Error'')) contents)"
  by (induction contents arbitrary: documents) auto

text \<open>
  C10. \<open>create_documents_from_contents\<close> builds one document, in order, for exactly the
  entries whose content does not begin with \<^verbatim>\<open>Error\<close>. The prefix alone decides: when a
  page is fetched and its cleaned text has 10 characters or more and begins with
  \<^verbatim>\<open>Error\<close>, the single-page extractor returns that text as its result, and no
  document is built from it.
\<close>

theorem error_prefix_decides:
  "create_documents_from_contents contents =
     map (\<lambda>(url, content). \<lparr>page_content = content, metadata = [(''source'', url)]\<rparr>)
       (filter (\<lambda>(url, content). \<not> startswith content (py ''Error'')) contents) \<and>
   (http_get_text w (now w) url = Inr raw \<and> 10 \<le> length (clean_text raw) \<and>
    startswith (clean_text raw) (py ''Error'') \<longrightarrow>
      fst (extract_content_from_url url w) = clean_text raw \<and>
      create_documents_from_contents [(url, fst (extract_content_from_url url w))] = [])"
  by (auto simp: create_documents_from_contents_def create_documents_loop_filter
        extract_content_from_url_def Let_def strip_clean_text)

theorem error_prefix_decides_witness:
  "http_get_text (site_world example_site) (now (site_world example_site))
     (py ''https://b.example'') = Inr (py ''Error codes explained'') \<and>
   clean_text (py ''Error codes explained'') = py ''Error codes explained'' \<and>
   fst (extract_content_from_url (py ''https://b.example'') (site_world example_site)) =
     py ''Error codes explained'' \<and>
   create_documents_from_contents
     [(py ''https://b.example'',
       fst (extract_content_from_url (py ''https://b.example'') (site_world example_site)))] = []"
proof -
  let ?w = "site_world example_site"
  have h: "http_get_text ?w (now ?w) (py ''https://b.example'') = Inr (py ''Error codes explained'')"
    by (simp add: site_world_def example_site_def py_def)
  have c: "clean_text (py ''Error codes explained'') = py ''Error codes explained''"
    by (simp add: run_defs)
  have l: "10 \<le> length (clean_text (py ''Error codes explained''))"
    unfolding c by (simp add: py_def)
  have p: "startswith (clean_text (py ''Error codes explained'')) (py ''Error'')"
    unfolding c by (simp add: startswith_def py_def)
  from error_prefix_decides[of "[]" ?w "py ''https://b.example''" "py ''Error codes explained''"]
    h l p
  have "fst (extract_content_from_url (py ''https://b.example'') ?w) =
        clean_text (py ''Error codes explained'') \<and>
      create_documents_from_contents
        [(py ''https://b.example'', fst (extract_content_from_url (py ''https://b.example'') ?w))] = []"
    by blast
  with h c show ?thesis
    by auto
qed

text \<open>
  C9. \<open>split_documents\<close> on the empty list returns the empty list, whatever the
  splitter would do: it is not called, and nothing is raised.
\<close>

theorem split_documents_empty: "split_documents text_splitter [] = Inr []"
  by (simp add: split_documents_def)

text \<open>
  C8. When the HuggingFace token is unset or empty, \<open>create_vector_store\<close> raises its
  configuration error, \<^verbatim>\<open>ValueError("No embeddings service available ...")\<close>, for every
  list of documents, and the steps taken are those taken before: the embedding client
  is not built and no document is sent to the embedding service.
\<close>

theorem create_vector_store_checks_token_first:
  "\<not> truthy HF_token \<Longrightarrow>
   create_vector_store sv HF_token documents steps =
     (Inl (ValueError (py ''No embeddings service available - please set HUGGINGFACEHUB_API_TOKEN in your .env file'')),
      steps)"
  by (simp add: create_vector_store_def truthy_def split: option.splits)

theorem create_vector_store_checks_token_first_witness:
  "\<not> truthy (Some []) \<and>
   create_vector_store \<lparr>build_client = (\<lambda>key name. None), embed_documents = (\<lambda>docs e. None)\<rparr>
     (Some []) [\<lparr>page_content = py ''Hello world, this is a page'', metadata = []\<rparr>] [] =
     (Inl (ValueError (py ''No embeddings service available - please set HUGGINGFACEHUB_API_TOKEN in your .env file'')),
      [])"
proof -
  have h: "\<not> truthy (Some [])"
    by (simp add: truthy_def)
  from create_vector_store_checks_token_first[OF h] h show ?thesis
    by blast
qed

section \<open>The cascade of the structure-preserving strategy\<close>

text \<open>
  The loops in terms of what the extractors give: the world they leave, the calls they
  make, whether \<^verbatim>\<open>has_valid_content\<close> is set and whether an exception leaves them.
\<close>

lemma langchain_loop_world:
  "snd (snd (snd (langchain_loop ex urls (contents, hv, calls, w)))) =
     snd (langchain_outcomes ex urls w)"
  by (induction urls arbitrary: contents hv calls w)
     (auto split: prod.splits sum.splits list.splits)

lemma from_url_checked_loop_outcomes:
  "fst (snd (snd (snd (from_url_checked_loop ex urls (contents, hv, calls, w))))) =
     calls @ map CallFromUrl (take (length (fst (from_url_outcomes ex urls w))) urls) \<and>
   snd (snd (snd (snd (from_url_checked_loop ex urls (contents, hv, calls, w))))) =
     snd (from_url_outcomes ex urls w) \<and>
   (fst (from_url_checked_loop ex urls (contents, hv, calls, w)) \<noteq> None) =
     list_ex isl (fst (from_url_outcomes ex urls w))"
  by (induction urls arbitrary: contents hv calls w)
     (auto split: prod.splits sum.splits)

lemma from_url_loop_outcomes:
  "fst (snd (snd (from_url_loop ex urls (contents, calls, w)))) =
     calls @ map CallFromUrl (take (length (fst (from_url_outcomes ex urls w))) urls)"
  by (induction urls arbitrary: contents calls w)
     (auto split: prod.splits sum.splits)

lemma from_url_outcomes_returning:
  "(\<And>url w. \<exists>content w'. x_from_url ex url w = (Inr content, w')) \<Longrightarrow>
   length (fst (from_url_outcomes ex urls w)) = length urls \<and>
   \<not> list_ex isl (fst (from_url_outcomes ex urls w))"
proof (induction urls arbitrary: w)
  case Nil
  then show ?case by simp
next
  case (Cons url urls)
  from Cons.prems[of url w] obtain content w' where x: "x_from_url ex url w = (Inr content, w')"
    by blast
  from Cons.IH[OF Cons.prems, of w'] x show ?case
    by (auto split: prod.splits)
qed

lemma langchain_loop_flag:
  "fst (snd (langchain_loop ex urls (contents, hv, calls, w))) =
     (hv \<or> list_ex yields_content (fst (langchain_outcomes ex urls w)))"
  by (induction urls arbitrary: contents hv calls w)
     (auto simp: yields_content_def split: prod.splits sum.splits list.splits)

text \<open>
  C2. With the structure-preserving strategy and at least one normalized URL, when the
  batch extractor returns and none of its documents is usable, the calls of the
  orchestrator are exactly these, for any three extractors put in place of the
  repository's own: the batch call; then the single-URL structure-preserving extractor
  for every normalized URL in order; then, if one of these calls yielded content, no
  call at all, and otherwise the simple extractor for the normalized URLs in order up
  to the first call that raises, followed, when a call raised, by the simple extractor
  from the first URL again, as the handler of line 76 does. In particular, when no
  single-URL call yields content and the simple extractor returns on every call, as
  the repository's does, the calls are the batch call, the single-URL call for every
  URL, the simple call for every URL.
\<close>

theorem cascade_order:
  assumes "use_langchain"
      and "clean_urls_loop [] urls \<noteq> []"
      and "x_html2text ex (clean_urls_loop [] urls) w = (Inr docs, w1)"
      and "\<forall>doc\<in>set docs. \<not> usable doc"
  shows "(let clean = clean_urls_loop [] urls;
              single = langchain_outcomes ex clean w1;
              simple = from_url_outcomes ex clean (snd single);
              again = from_url_outcomes ex clean (snd simple)
          in calls_made (process_urls_with ex urls use_langchain w) =
               CallHtml2text clean # map CallLangchain clean @
               (if list_ex yields_content (fst single) then []
                else map CallFromUrl
                       (take (length (fst simple)) clean @
                        (if list_ex isl (fst simple) then take (length (fst again)) clean
                         else []))) \<and>
             (\<not> list_ex yields_content (fst single) \<and>
              (\<forall>url w'. \<exists>content w''. x_from_url ex url w' = (Inr content, w'')) \<longrightarrow>
                calls_made (process_urls_with ex urls use_langchain w) =
                  CallHtml2text clean # map CallLangchain clean @ map CallFromUrl clean))"
proof -
  let ?clean = "clean_urls_loop [] urls"
  let ?B = "CallHtml2text ?clean"
  let ?single = "langchain_outcomes ex ?clean w1"
  let ?simple = "from_url_outcomes ex ?clean (snd ?single)"
  let ?again = "from_url_outcomes ex ?clean (snd ?simple)"
  let ?found = "list_ex yields_content (fst ?single)"
  let ?calls = "calls_made (process_urls_with ex urls use_langchain w)"
  have b: "batch_loop docs ([], False) = ([], False)"
    using assms(4) by (rule batch_loop_unusable)
  obtain c2 h2 calls2 w2 where
    l: "langchain_loop ex ?clean ([], False, [?B], w1) = (c2, h2, calls2, w2)"
    by (cases "langchain_loop ex ?clean ([], False, [?B], w1)") auto
  from langchain_loop_calls[of ex ?clean "[]" False "[?B]" w1] l
  have calls2: "calls2 = ?B # map CallLangchain ?clean"
    by simp
  from langchain_loop_flag[of ex ?clean "[]" False "[?B]" w1] l
  have h2: "h2 = ?found"
    by simp
  from langchain_loop_world[of ex ?clean "[]" False "[?B]" w1] l
  have w2: "w2 = snd ?single"
    by simp
  have exact: "?calls = ?B # map CallLangchain ?clean @
      (if ?found then []
       else map CallFromUrl
              (take (length (fst ?simple)) ?clean @
               (if list_ex isl (fst ?simple) then take (length (fst ?again)) ?clean else [])))"
  proof (cases h2)
    case True
    with assms(1-3) b l have
      "process_urls_with ex urls use_langchain w = finish (None, c2, calls2, w2)"
      by (simp add: process_urls_with_def try_langchain_def Let_def)
    then have "?calls = ?B # map CallLangchain ?clean"
      by (simp add: calls_made_finish calls2)
    with True h2 show ?thesis
      by simp
  next
    case False
    with assms(3) b l have t: "try_langchain ex ?clean w =
        from_url_checked_loop ex ?clean (c2, h2, calls2, w2)"
      by (simp add: try_langchain_def)
    obtain r c3 h3 calls3 w3 where
      f: "from_url_checked_loop ex ?clean (c2, h2, calls2, w2) = (r, c3, h3, calls3, w3)"
      by (cases "from_url_checked_loop ex ?clean (c2, h2, calls2, w2)") auto
    from from_url_checked_loop_outcomes[of ex ?clean c2 h2 calls2 w2] f
    have calls3: "calls3 = calls2 @ map CallFromUrl (take (length (fst ?simple)) ?clean)"
      and w3: "w3 = snd ?simple"
      and r: "(r \<noteq> None) = list_ex isl (fst ?simple)"
      unfolding w2 by simp_all
    from False h2 have nf: "\<not> ?found"
      by simp
    show ?thesis
    proof (cases r)
      case None
      with t f assms(1,2) have
        "process_urls_with ex urls use_langchain w = finish (None, c3, calls3, w3)"
        by (simp add: process_urls_with_def Let_def)
      then have "?calls = calls3"
        by (simp add: calls_made_finish)
      with None r nf show ?thesis
        by (simp add: calls3 calls2)
    next
      case (Some e)
      with t f assms(1,2) have p: "process_urls_with ex urls use_langchain w =
          finish (from_url_loop ex ?clean (c3, calls3, w3))"
        by (simp add: process_urls_with_def Let_def)
      have "?calls = calls3 @ map CallFromUrl (take (length (fst ?again)) ?clean)"
        unfolding p calls_made_finish w3
        by (rule from_url_loop_outcomes)
      with Some r nf show ?thesis
        by (simp add: calls3 calls2)
    qed
  qed
  have returning: "?calls = ?B # map CallLangchain ?clean @ map CallFromUrl ?clean"
    if nf: "\<not> ?found"
      and ret: "\<forall>url w'. \<exists>content w''. x_from_url ex url w' = (Inr content, w'')"
  proof -
    from ret have "\<And>url w'. \<exists>content w''. x_from_url ex url w' = (Inr content, w'')"
      by blast
    from from_url_outcomes_returning[of ex ?clean "snd ?single", OF this]
    have "length (fst ?simple) = length ?clean" and "\<not> list_ex isl (fst ?simple)"
      by blast+
    with exact nf show ?thesis
      by simp
  qed
  from exact returning show ?thesis
    unfolding Let_def by blast
qed

theorem cascade_order_witness:
  "clean_urls_loop [] [py '' example.com '', py ''http://b.org''] =
     [py ''https://example.com'', py ''http://b.org''] \<and>
   fst (x_html2text extractors [py ''https://example.com'', py ''http://b.org''] offline_world) =
     Inr [batch_error_document [py ''https://example.com'', py ''http://b.org'']
            (py ''Connection refused'')] \<and>
   \<not> usable (batch_error_document [py ''https://example.com'', py ''http://b.org'']
              (py ''Connection refused'')) \<and>
   calls_made (process_urls_with extractors [py '' example.com '', py ''http://b.org'']
       True offline_world) =
     [CallHtml2text [py ''https://example.com'', py ''http://b.org''],
      CallLangchain (py ''https://example.com''), CallLangchain (py ''http://b.org''),
      CallFromUrl (py ''https://example.com''), CallFromUrl (py ''http://b.org'')] \<and>
   calls_made (process_urls_with extractors [py ''c.example''] True batch_down_world) =
     [CallHtml2text [py ''https://c.example''], CallLangchain (py ''https://c.example'')]"
proof -
  let ?urls = "[py '' example.com '', py ''http://b.org'']"
  let ?clean = "[py ''https://example.com'', py ''http://b.org'']"
  let ?doc = "batch_error_document ?clean (py ''Connection refused'')"
  let ?w1 = "sent (AsyncHtmlLoad ?clean) offline_world"
  have c: "clean_urls_loop [] ?urls = ?clean"
    by (simp add: run_defs)
  have ne: "clean_urls_loop [] ?urls \<noteq> []"
    unfolding c by simp
  have b: "x_html2text extractors (clean_urls_loop [] ?urls) offline_world = (Inr [?doc], ?w1)"
    unfolding c
    by (simp add: extractors_def returning_def extract_content_with_html2text_def
          offline_world_def now_def Let_def)
  have u: "\<forall>doc\<in>set [?doc]. \<not> usable doc"
    by (simp add: usable_def run_defs)
  have nf: "\<not> list_ex yields_content
      (fst (langchain_outcomes extractors (clean_urls_loop [] ?urls) ?w1))"
    unfolding c
    by (simp add: yields_content_def run_defs offline_world_def)
  have ret: "\<forall>url w'. \<exists>content w''. x_from_url extractors url w' = (Inr content, w'')"
    by (simp add: extractors_from_url)
  from cascade_order[OF TrueI ne b u, unfolded Let_def] nf ret
  have "calls_made (process_urls_with extractors ?urls True offline_world) =
      CallHtml2text (clean_urls_loop [] ?urls) # map CallLangchain (clean_urls_loop [] ?urls) @
      map CallFromUrl (clean_urls_loop [] ?urls)"
    by blast
  then have first: "calls_made (process_urls_with extractors ?urls True offline_world) =
      [CallHtml2text ?clean, CallLangchain (py ''https://example.com''),
       CallLangchain (py ''http://b.org''), CallFromUrl (py ''https://example.com''),
       CallFromUrl (py ''http://b.org'')]"
    unfolding c by simp
  let ?u2 = "[py ''c.example'']"
  let ?c2 = "[py ''https://c.example'']"
  let ?d2 = "batch_error_document ?c2 (py ''Connection refused'')"
  let ?w2 = "sent (AsyncHtmlLoad ?c2) batch_down_world"
  have c2: "clean_urls_loop [] ?u2 = ?c2"
    by (simp add: run_defs)
  have ne2: "clean_urls_loop [] ?u2 \<noteq> []"
    unfolding c2 by simp
  have b2: "x_html2text extractors (clean_urls_loop [] ?u2) batch_down_world = (Inr [?d2], ?w2)"
    unfolding c2
    by (simp add: extractors_def returning_def extract_content_with_html2text_def
          batch_down_world_def site_world_def now_def Let_def)
  have u2: "\<forall>doc\<in>set [?d2]. \<not> usable doc"
    by (simp add: usable_def run_defs)
  have f2: "list_ex yields_content
      (fst (langchain_outcomes extractors (clean_urls_loop [] ?u2) ?w2))"
    unfolding c2
    by (simp add: yields_content_def run_defs batch_down_world_def site_world_def
          example_site_def)
  from cascade_order[OF TrueI ne2 b2 u2, unfolded Let_def]
  have "calls_made (process_urls_with extractors ?u2 True batch_down_world) =
      CallHtml2text (clean_urls_loop [] ?u2) # map CallLangchain (clean_urls_loop [] ?u2) @
      (if list_ex yields_content (fst (langchain_outcomes extractors (clean_urls_loop [] ?u2) ?w2))
       then []
       else map CallFromUrl
              (take (length (fst (from_url_outcomes extractors (clean_urls_loop [] ?u2)
                  (snd (langchain_outcomes extractors (clean_urls_loop [] ?u2) ?w2)))))
                 (clean_urls_loop [] ?u2) @
               (if list_ex isl (fst (from_url_outcomes extractors (clean_urls_loop [] ?u2)
                      (snd (langchain_outcomes extractors (clean_urls_loop [] ?u2) ?w2))))
                then take (length (fst (from_url_outcomes extractors (clean_urls_loop [] ?u2)
                        (snd (from_url_outcomes extractors (clean_urls_loop [] ?u2)
                           (snd (langchain_outcomes extractors (clean_urls_loop [] ?u2) ?w2)))))))
                       (clean_urls_loop [] ?u2)
                else [])))"
    by blast
  with f2 have second: "calls_made (process_urls_with extractors ?u2 True batch_down_world) =
      [CallHtml2text ?c2, CallLangchain (py ''https://c.example'')]"
    unfolding c2 by (simp only: if_True) simp
  from first second b u show ?thesis
    unfolding c by simp
qed

section \<open>The choice of the backend\<close>

















end
